theory Spec2Isabelle
  imports Main
begin

section \<open>Strings\<close>

text \<open>
  Go strings are byte sequences; they are modelled as \<^typ>\<open>string\<close>.  \<open>Split\<close> is
  \<open>strings.Split\<close> for a one-byte separator: it cuts at every occurrence of the separator
  and returns one piece more than there are separators, so the empty string splits into the
  single empty piece.
\<close>

fun Split :: "char \<Rightarrow> string \<Rightarrow> string list" where
  "Split sep [] = [[]]"
| "Split sep (c # cs) =
     (if c = sep then [] # Split sep cs
      else (case Split sep cs of
              [] \<Rightarrow> [[c]]
            | w # ws \<Rightarrow> (c # w) # ws))"

text \<open>\<open>strings.HasPrefix s pre\<close>.\<close>

fun HasPrefix :: "string \<Rightarrow> string \<Rightarrow> bool" where
  "HasPrefix s [] = True"
| "HasPrefix [] (p # ps) = False"
| "HasPrefix (c # cs) (p # ps) = (c = p \<and> HasPrefix cs ps)"

text \<open>\<open>strings.Index s c\<close> for a one-byte needle; \<open>None\<close> stands for \<open>-1\<close>.\<close>

fun Index :: "string \<Rightarrow> char \<Rightarrow> nat option" where
  "Index [] c = None"
| "Index (x # xs) c = (if x = c then Some 0 else map_option Suc (Index xs c))"

subsection \<open>\<open>url.QueryUnescape\<close>\<close>

text \<open>
  The standard library's \<open>url.QueryUnescape\<close>: \<open>%XY\<close> with two hexadecimal digits becomes
  the byte \<open>0xXY\<close>, \<open>+\<close> becomes a space, every other byte is kept; a \<open>%\<close> that is not
  followed by two hexadecimal digits is an error (\<open>None\<close>).
\<close>

definition ishex :: "char \<Rightarrow> bool" where
  "ishex c = (c \<in> set ''0123456789abcdefABCDEF'')"

definition unhex :: "char \<Rightarrow> nat" where
  "unhex c =
     (let n = of_char c :: nat in
      if 48 \<le> n \<and> n \<le> 57 then n - 48
      else if 97 \<le> n \<and> n \<le> 102 then n - 97 + 10
      else if 65 \<le> n \<and> n \<le> 70 then n - 65 + 10
      else 0)"

fun QueryUnescape :: "string \<Rightarrow> string option" where
  "QueryUnescape [] = Some []"
| "QueryUnescape (c # cs) =
     (if c = CHR ''%'' then
        (case cs of
           h1 # h2 # rest \<Rightarrow>
             (if ishex h1 \<and> ishex h2
              then map_option ((#) (char_of (unhex h1 * 16 + unhex h2))) (QueryUnescape rest)
              else None)
         | _ \<Rightarrow> None)
      else if c = CHR ''+'' then map_option ((#) CHR '' '') (QueryUnescape cs)
      else map_option ((#) c) (QueryUnescape cs))"

section \<open>Path templates\<close>

record PathTemplate =
  PathTemplate :: string
  httpHandlePath :: string
  isVariables :: "bool list"
  splittedPathTemplate :: "string list"
  PathParameters :: "string list"

text \<open>
  The regular expression \<open>^\{(.+)\}$\<close> of \<open>ParsePathTemplate\<close>: an opening brace, at least
  one byte none of which is a line feed (Go's \<open>.\<close> does not match it), a closing brace at the
  end of the text.  \<open>reSubmatch\<close> is the captured group, the text between the braces.
\<close>

definition reSubmatch :: "string \<Rightarrow> string" where
  "reSubmatch s = butlast (tl s)"

definition reMatchString :: "string \<Rightarrow> bool" where
  "reMatchString s =
     (3 \<le> length s \<and> hd s = CHR ''{'' \<and> last s = CHR ''}''
      \<and> CHR 0x0A \<notin> set (reSubmatch s))"

definition ParsePathTemplate :: "string \<Rightarrow> PathTemplate" where
  "ParsePathTemplate pathTmpl =
     (let toks = Split CHR ''/'' pathTmpl in
      \<lparr> PathTemplate = pathTmpl,
        httpHandlePath =
          (case Index pathTmpl CHR ''{'' of
             None \<Rightarrow> pathTmpl
           | Some vIndex \<Rightarrow> take vIndex pathTmpl),
        isVariables = map reMatchString toks,
        splittedPathTemplate = toks,
        PathParameters = map reSubmatch (filter reMatchString toks) \<rparr>)"

text \<open>
  The bindings of \<open>Match\<close> are a Go map from names to values; they are kept as an association
  list with one entry per key.  \<open>mapAssign\<close> is the assignment \<open>params[key] = v\<close>.
\<close>

fun mapAssign :: "(string \<times> string) list \<Rightarrow> string \<Rightarrow> string \<Rightarrow> (string \<times> string) list" where
  "mapAssign [] key v = [(key, v)]"
| "mapAssign ((k, w) # ps) key v =
     (if k = key then (key, v) # ps else (k, w) # mapAssign ps key v)"

text \<open>
  The loop of \<open>PathTemplate.Match\<close> over the template's segments, the variable flags and
  the (already truncated) request segments, with the bindings collected so far.  \<open>None\<close> is
  the early \<open>return false, nil\<close>.  The value bound to a variable is the unescaped request
  segment, or the segment itself when it cannot be unescaped.
\<close>

definition unescapeOrRaw :: "string \<Rightarrow> string" where
  "unescapeOrRaw reqPart = (case QueryUnescape reqPart of Some v \<Rightarrow> v | None \<Rightarrow> reqPart)"

fun matchLoop ::
  "string list \<Rightarrow> bool list \<Rightarrow> string list \<Rightarrow> (string \<times> string) list
     \<Rightarrow> (string \<times> string) list option"
where
  "matchLoop (s # ss) (v # vs) (reqPart # rs) params =
     (if v then
        (if reqPart = [] then None
         else matchLoop ss vs rs (mapAssign params (reSubmatch s) (unescapeOrRaw reqPart)))
      else if s \<noteq> reqPart then None
      else matchLoop ss vs rs params)"
| "matchLoop [] vs rs params = Some params"
| "matchLoop (s # ss) vs rs params = None"

text \<open>
  \<open>PathTemplate.Match\<close>.  The result is the pair of the source: the flag, and the bindings,
  where \<open>None\<close> is Go's nil map (returned with every failure and by the prefix shortcut).
  The private slices \<open>isVariables\<close> and \<open>splittedPathTemplate\<close> have the same length in
  every template the package builds, and the request segments handed to the loop are never
  fewer than the template's, so the last equation of \<open>matchLoop\<close> (an index out of range in
  the source) is not reached from \<open>Match\<close> on such a template.
\<close>

definition matchResult :: "(string \<times> string) list option \<Rightarrow> bool \<times> (string \<times> string) list option" where
  "matchResult res = (case res of None \<Rightarrow> (False, None) | Some params \<Rightarrow> (True, Some params))"

definition Match :: "PathTemplate \<Rightarrow> string \<Rightarrow> bool \<times> (string \<times> string) list option" where
  "Match pt requestPath =
     (if PathTemplate pt = httpHandlePath pt \<and> HasPrefix requestPath (httpHandlePath pt)
      then (True, None)
      else
        (let requestPathSplitted = Split CHR ''/'' requestPath;
             requiredLen = length (splittedPathTemplate pt);
             requestLen = length requestPathSplitted
         in if requiredLen < requestLen then
              matchResult (matchLoop (splittedPathTemplate pt) (isVariables pt)
                             (take requiredLen requestPathSplitted) [])
            else if requiredLen \<noteq> requestLen then (False, None)
            else
              matchResult (matchLoop (splittedPathTemplate pt) (isVariables pt)
                             requestPathSplitted [])))"

section \<open>Router\<close>

text \<open>
  Of \<open>http.Request\<close> the fields the modelled code reads: the method, \<open>URL.Path\<close>,
  \<open>URL.EscapedPath()\<close>, the query
  (\<open>URL.Query()\<close>, its keys in the order the runtime iterates them), the
  \<open>Content-Type\<close> header, and the body (\<open>None\<close> is a nil \<open>Body\<close>, \<open>Inl\<close> a read that
  fails, \<open>Inr\<close> the bytes \<open>ioutil.ReadAll\<close> returns).
\<close>

datatype error =
    ErrInvalidRequestHandler
  | ErrInvalidArgumentLength
  | ErrInvalidArgumentValue
  | ErrInvalidPathParameterType
  | ErrPathParameterFieldMissing
  | httpError nat string
  | otherError string
  | runtimePanic string

record HttpRequest =
  reqMethod :: string
  URLPath :: string
  URLEscapedPath :: string
  URLQuery :: "(string \<times> string list) list"
  HeaderContentType :: string
  Body :: "(error + string) option"

text \<open>
  \<open>RouteDefinition\<close>; the handler container is a parameter of the router, which only
  stores it.
\<close>

record 'h RouteDefinition =
  Method :: string
  RoutePathTemplate :: PathTemplate
  HandlerContainer :: 'h

definition noMethodMatch :: nat where "noMethodMatch = 0"
definition starMethodMatch :: nat where "starMethodMatch = 1"
definition overloadMethodMatch :: nat where "overloadMethodMatch = 2"
definition exactMethodMatch :: nat where "exactMethodMatch = 3"

definition noPathMatch :: nat where "noPathMatch = 0"
definition starPathMatch :: nat where "starPathMatch = 1"
definition exactPathMatch :: nat where "exactPathMatch = 2"

definition methodMatchRate :: "HttpRequest \<Rightarrow> 'h RouteDefinition \<Rightarrow> nat" where
  "methodMatchRate r rd =
     (if Method rd = ''*'' then starMethodMatch
      else if Method rd = ''GET'' \<and> reqMethod r = ''HEAD'' then overloadMethodMatch
      else if Method rd = reqMethod r then exactMethodMatch
      else noMethodMatch)"

text \<open>
  The scoring loop of \<open>pathMatchRate\<close> from index 1 on (index 0 is skipped by the source):
  template tokens, variable flags and request tokens side by side.  The request has at
  least as many tokens as the template when the loop runs.
\<close>

fun rateLoop :: "string list \<Rightarrow> bool list \<Rightarrow> string list \<Rightarrow> nat" where
  "rateLoop (token # ts) (v # vs) (reqToken # rs) =
     (if v then exactPathMatch
      else if token = [] then starPathMatch
      else if token = reqToken then exactPathMatch
      else 0) + rateLoop ts vs rs"
| "rateLoop ts vs rs = 0"

definition pathMatchRate :: "HttpRequest \<Rightarrow> 'h RouteDefinition \<Rightarrow> nat" where
  "pathMatchRate r rd =
     (if \<not> fst (Match (RoutePathTemplate rd) (URLPath r)) then noPathMatch
      else
        (let tempPathTokens = splittedPathTemplate (RoutePathTemplate rd);
             reqPathTokens = Split CHR ''/'' (URLPath r)
         in if length reqPathTokens < length tempPathTokens then noPathMatch
            else rateLoop (tl tempPathTokens) (tl (isVariables (RoutePathTemplate rd)))
                   (tl reqPathTokens)))"

text \<open>
  One iteration of the selection loop of \<open>pickupBestRouteDefinition\<close> on the state
  (\<open>bestRoute\<close>, \<open>bestMethodMatchRate\<close>, \<open>bestPathMatchRate\<close>); every \<open>continue\<close> leaves the
  state as it is.
\<close>

type_synonym 'h best = "'h RouteDefinition option \<times> nat \<times> nat"

definition pickupStep :: "HttpRequest \<Rightarrow> 'h best \<Rightarrow> 'h RouteDefinition \<Rightarrow> 'h best" where
  "pickupStep r st rd =
     (case st of (bestRoute, bestMethodMatchRate, bestPathMatchRate) \<Rightarrow>
        (let mRate = methodMatchRate r rd in
         if mRate = noMethodMatch then st
         else if mRate < bestMethodMatchRate then st
         else
           (let pRate = pathMatchRate r rd in
            if pRate = noPathMatch then st
            else if pRate < bestPathMatchRate then st
            else if bestMethodMatchRate = mRate \<and> bestPathMatchRate = pRate then st
            else (Some rd, mRate, pRate))))"

definition pickupBestRouteDefinition ::
  "'h RouteDefinition list \<Rightarrow> HttpRequest \<Rightarrow> 'h RouteDefinition option" where
  "pickupBestRouteDefinition handlers r =
     fst (foldl (pickupStep r) (None, noMethodMatch, noPathMatch) handlers)"


section \<open>Reflected types and values\<close>

text \<open>
  What the modelled code asks of \<open>reflect.Type\<close>: the kind, the element type of a pointer or
  slice, and the fields of a struct.  A struct field carries its name, the value of its
  \<open>json\<close> tag and the kind of its type; \<open>Embedded\<close> is an anonymous field of struct type
  with the fields of that struct.  (An anonymous field of any other type makes \<open>NumField\<close>
  panic in the mappers below; request types with such fields are outside the model.)
\<close>

datatype Kind = Ptr | Struct | Slice | Func | Interface | Scalar

datatype StructField =
    Field string string Kind
  | Embedded string "StructField list"

datatype rtype =
    StructT string "StructField list"
  | PtrT rtype
  | SliceT rtype
  | FuncT
  | InterfaceT string
  | ScalarT string

fun KindOf :: "rtype \<Rightarrow> Kind" where
  "KindOf (StructT n fs) = Struct"
| "KindOf (PtrT t) = Ptr"
| "KindOf (SliceT t) = Slice"
| "KindOf FuncT = Func"
| "KindOf (InterfaceT n) = Interface"
| "KindOf (ScalarT n) = Scalar"

text \<open>\<open>Type.Elem()\<close>; \<open>None\<close> where the library panics.\<close>

fun Elem :: "rtype \<Rightarrow> rtype option" where
  "Elem (PtrT t) = Some t"
| "Elem (SliceT t) = Some t"
| "Elem t = None"

text \<open>The fields of a struct type (\<open>NumField\<close> and \<open>Field\<close>); none for another type.\<close>

fun FieldsOf :: "rtype \<Rightarrow> StructField list" where
  "FieldsOf (StructT n fs) = fs"
| "FieldsOf t = []"

text \<open>
  A valid \<open>reflect.Value\<close> is its type and its content; the zero \<open>reflect.Value\<close> (for which
  \<open>IsValid\<close> is false) is \<open>None\<close> of \<open>'o Value option\<close>.  The content \<open>'o\<close> is a parameter.
\<close>

datatype 'o Value = Value rtype 'o

fun TypeOf :: "'o Value \<Rightarrow> rtype" where
  "TypeOf (Value t x) = t"

text \<open>
  The services of \<open>reflect\<close>, \<open>strconv\<close> and \<open>encoding/json\<close> the code calls on contents:
  \<^item> \<open>AssignableTo a b\<close>: \<open>a.AssignableTo(b)\<close>;
  \<^item> \<open>New t\<close>: the zero content \<open>reflect.New(t)\<close> points to;
  \<^item> \<open>SetValueFromString x path s\<close>: parse \<open>s\<close> into the field reached by the field
    indices \<open>path\<close> (by \<open>ParseString\<close> of a \<open>StringParser\<close> field, else by
    \<open>SetValueFromString\<close>), the new content or the error; a failed parse sets nothing;
  \<^item> \<open>SetValueFromStrings x path ss\<close>: the same for a slice field and a list of strings;
  \<^item> \<open>Unmarshal body x\<close>: \<open>json.Unmarshal\<close> into the content, the new content or the
    message \<open>newBadRequestf\<close> makes of the decoder's error.

  A panic inside these services is not modelled.
\<close>

record 'o Reflect =
  AssignableTo :: "rtype \<Rightarrow> rtype \<Rightarrow> bool"
  New :: "rtype \<Rightarrow> 'o"
  SetValueFromString :: "'o \<Rightarrow> nat list \<Rightarrow> string \<Rightarrow> error + 'o"
  SetValueFromStrings :: "'o \<Rightarrow> nat list \<Rightarrow> string list \<Rightarrow> error + 'o"
  Unmarshal :: "string \<Rightarrow> 'o \<Rightarrow> string + 'o"

section \<open>Bubble and the middleware chain\<close>

text \<open>
  A handler is a function value: its parameter types (\<open>hv.Type().In(i)\<close>, \<open>NumIn\<close> their
  number) and what \<open>hv.Call\<close> returns.  \<open>NotFunc\<close> is any other value.
\<close>

record 'o Handler =
  In :: "rtype list"
  Call :: "'o Value list \<Rightarrow> 'o Value list"

datatype 'o HandlerValue = FuncValue "'o Handler" | NotFunc

text \<open>
  What \<open>b.Context.Value(PathParameterKey)\<close> returns: nil, a value that is not a
  \<open>map[string]string\<close>, or such a map (its entries in the order the runtime iterates them).
\<close>

datatype PathParameterValue = NoValue | NotStringMap | Params "(string \<times> string) list"

text \<open>
  The exported fields of \<open>Bubble\<close>.  The private \<open>queueIndex\<close> and \<open>mux\<close> are kept outside the
  record, since no middleware can touch them: the chain is an argument of \<open>Next\<close>, and the
  cursor is threaded through it together with the list of invocations made so far (the call
  counter of the tests).
\<close>

record 'o Bubble =
  R :: HttpRequest
  W :: string
  Context :: PathParameterValue
  RequestHandler :: "'o HandlerValue"
  Debug :: bool
  Handled :: bool
  ArgumentTypes :: "rtype list"
  Arguments :: "'o Value option list"
  Returns :: "'o Value list"

datatype event = StageEv nat | HandlerEv

text \<open>
  A \<open>MiddlewareFunc\<close> is a Go function of the bubble that may call \<open>b.Next()\<close> any number of
  times.  Applied to a bubble it either returns (an error or nil, leaving the bubble in some
  state), or calls \<open>Next\<close> on the bubble as it has made it and goes on from what \<open>Next\<close>
  returned and the state the bubble is in then.  A stage that panics is
  \<open>Return (Some (runtimePanic msg))\<close>.
\<close>

datatype 'o Stage =
    Return "error option" "'o Bubble"
  | CallNext "'o Bubble" "error option \<Rightarrow> 'o Bubble \<Rightarrow> 'o Stage"

type_synonym 'o MiddlewareFunc = "'o Bubble \<Rightarrow> 'o Stage"

text \<open>The outcome of a call: the error, the bubble, \<open>queueIndex\<close> and the invocations.\<close>

type_synonym 'o Run = "error option \<times> 'o Bubble \<times> nat \<times> event list"

fun isPanic :: "error option \<Rightarrow> bool" where
  "isPanic (Some (runtimePanic msg)) = True"
| "isPanic e = False"

text \<open>
  Running a stage, given what \<open>b.Next()\<close> does.  A panic below unwinds through the caller,
  whose code after the call does not run.
\<close>

primrec exec ::
  "('o Bubble \<Rightarrow> nat \<Rightarrow> event list \<Rightarrow> 'o Run) \<Rightarrow> 'o Stage \<Rightarrow> nat \<Rightarrow> event list \<Rightarrow> 'o Run"
where
  "exec nxt (Return err b) = (\<lambda>queueIndex tr. (err, b, queueIndex, tr))"
| "exec nxt (CallNext b k) =
     (\<lambda>queueIndex tr.
        case nxt b queueIndex tr of
          (err, b', queueIndex', tr') \<Rightarrow>
            if isPanic err then (err, b', queueIndex', tr')
            else exec nxt (k err b') queueIndex' tr')"

text \<open>
  The argument check of \<open>Bubble.do\<close>: the first slot that is not valid or whose type is not
  assignable to the handler's parameter fails the call; otherwise the values are handed on.
\<close>

fun checkArguments ::
  "'o Reflect \<Rightarrow> 'o Value option list \<Rightarrow> rtype list \<Rightarrow> error + 'o Value list" where
  "checkArguments rf [] ins = Inr []"
| "checkArguments rf (None # args) ins = Inl ErrInvalidArgumentValue"
| "checkArguments rf (Some v # args) [] = Inl ErrInvalidArgumentValue"
| "checkArguments rf (Some v # args) (t # ins) =
     (if \<not> AssignableTo rf (TypeOf v) t then Inl ErrInvalidArgumentValue
      else (case checkArguments rf args ins of
              Inl e \<Rightarrow> Inl e
            | Inr vs \<Rightarrow> Inr (v # vs)))"

text \<open>
  \<open>Bubble.do\<close>.  The handler is a function in every bubble \<open>newBubble\<close> makes; on another
  value \<open>hv.Type().NumIn()\<close>, the right operand of the length test, panics.  The third
  equation of \<open>checkArguments\<close> is not reached from here, the lengths being equal.
\<close>

definition do :: "'o Reflect \<Rightarrow> 'o Bubble \<Rightarrow> nat \<Rightarrow> event list \<Rightarrow> 'o Run" where
  "do rf b queueIndex tr =
     (if length (Arguments b) \<noteq> length (ArgumentTypes b)
      then (Some ErrInvalidArgumentLength, b, queueIndex, tr)
      else
        (case RequestHandler b of
           NotFunc \<Rightarrow>
             (Some (runtimePanic ''reflect: NumIn of non-func type''), b, queueIndex, tr)
         | FuncValue hv \<Rightarrow>
             if length (Arguments b) \<noteq> length (In hv)
             then (Some ErrInvalidArgumentLength, b, queueIndex, tr)
             else
               (case checkArguments rf (Arguments b) (In hv) of
                  Inl e \<Rightarrow> (Some e, b, queueIndex, tr)
                | Inr vs \<Rightarrow>
                    (None, b\<lparr>Returns := Call hv vs, Handled := True\<rparr>, queueIndex,
                     tr @ [HandlerEv]))))"

text \<open>
  \<open>Bubble.Next\<close>.  \<open>nextFrom rf ms i\<close> is \<open>Next\<close> for the middlewares \<open>ms\<close> that stand at the
  positions \<open>i\<close>, \<open>i + 1\<close>, ... of the chain: at \<open>queueIndex = i\<close> it advances the cursor and
  runs the middleware there, whose own calls of \<open>Next\<close> find the cursor further on; past the
  last middleware it is \<open>do\<close>.  The recursion is on the chain, since the cursor never goes
  back.  Lemma \<open>Next_unfold\<close> below states \<open>Next\<close> in the form of the source.
\<close>

primrec nextFrom ::
  "'o Reflect \<Rightarrow> 'o MiddlewareFunc list \<Rightarrow> nat \<Rightarrow> 'o Bubble \<Rightarrow> nat \<Rightarrow> event list \<Rightarrow> 'o Run"
where
  "nextFrom rf [] i = (\<lambda>b queueIndex tr. do rf b queueIndex tr)"
| "nextFrom rf (m # ms) i =
     (\<lambda>b queueIndex tr.
        if queueIndex = i
        then exec (nextFrom rf ms (Suc i)) (m b) (Suc i) (tr @ [StageEv i])
        else nextFrom rf ms (Suc i) b queueIndex tr)"

definition Next ::
  "'o Reflect \<Rightarrow> 'o MiddlewareFunc list \<Rightarrow> 'o Bubble \<Rightarrow> nat \<Rightarrow> event list \<Rightarrow> 'o Run" where
  "Next rf middlewares b queueIndex tr = nextFrom rf middlewares 0 b queueIndex tr"


section \<open>Mapping strings into request objects\<close>

text \<open>\<open>TagJSON.Ignored\<close>, \<open>TagJSON.Name\<close> and \<open>structFieldToKey\<close> on the value of the \<open>json\<close> tag.\<close>

definition Ignored :: "string \<Rightarrow> bool" where
  "Ignored jsonTag = (hd (Split CHR '','' jsonTag) = ''-'')"

definition TagName :: "string \<Rightarrow> string" where
  "TagName jsonTag = hd (Split CHR '','' jsonTag)"

definition structFieldToKey :: "string \<Rightarrow> string \<Rightarrow> string" where
  "structFieldToKey name jsonTag = (if TagName jsonTag \<noteq> [] then TagName jsonTag else name)"

text \<open>
  \<open>valueStringMapper\<close> on the fields of the target from index \<open>i\<close> on; \<open>path\<close> are the field
  indices that lead from the request object to the target.  The result is the pair of the
  source (found, error) and the content.
\<close>

fun valueStringMapper ::
  "'o Reflect \<Rightarrow> nat list \<Rightarrow> nat \<Rightarrow> StructField list \<Rightarrow> 'o \<Rightarrow> string \<Rightarrow> string
     \<Rightarrow> bool \<times> error option \<times> 'o"
where
  "valueStringMapper rf path i [] x key v = (False, None, x)"
| "valueStringMapper rf path i (Field name jsonTag kind # sfs) x key v =
     (if Ignored jsonTag then valueStringMapper rf path (Suc i) sfs x key v
      else if structFieldToKey name jsonTag \<noteq> key
        then valueStringMapper rf path (Suc i) sfs x key v
      else (case SetValueFromString rf x (path @ [i]) v of
              Inl err \<Rightarrow> (True, Some err, x)
            | Inr x' \<Rightarrow> (True, None, x')))"
| "valueStringMapper rf path i (Embedded jsonTag efs # sfs) x key v =
     (if Ignored jsonTag then valueStringMapper rf path (Suc i) sfs x key v
      else (case valueStringMapper rf (path @ [i]) 0 efs x key v of
              (ret, Some err, x') \<Rightarrow> (False, Some err, x')
            | (True, None, x') \<Rightarrow> (True, None, x')
            | (False, None, x') \<Rightarrow> valueStringMapper rf path (Suc i) sfs x' key v))"

text \<open>
  \<open>valueStringSliceMapper\<close>; \<open>target\<close> are all the fields of the target, which the branch
  for a field that is not a slice searches again with \<open>valueStringMapper\<close>.
\<close>

fun valueStringSliceMapper ::
  "'o Reflect \<Rightarrow> nat list \<Rightarrow> StructField list \<Rightarrow> nat \<Rightarrow> StructField list \<Rightarrow> 'o \<Rightarrow> string
     \<Rightarrow> string list \<Rightarrow> bool \<times> error option \<times> 'o"
where
  "valueStringSliceMapper rf path target i [] x key vs = (False, None, x)"
| "valueStringSliceMapper rf path target i (Field name jsonTag kind # sfs) x key vs =
     (if Ignored jsonTag then valueStringSliceMapper rf path target (Suc i) sfs x key vs
      else if structFieldToKey name jsonTag \<noteq> key
        then valueStringSliceMapper rf path target (Suc i) sfs x key vs
      else if kind \<noteq> Slice then
        (case vs of
           [] \<Rightarrow> valueStringSliceMapper rf path target (Suc i) sfs x key vs
         | v # rest \<Rightarrow>
             (case valueStringMapper rf path 0 target x key v of
                (ret, Some err, x') \<Rightarrow> (False, Some err, x')
              | (True, None, x') \<Rightarrow> (True, None, x')
              | (False, None, x') \<Rightarrow>
                  valueStringSliceMapper rf path target (Suc i) sfs x' key vs))
      else (case SetValueFromStrings rf x (path @ [i]) vs of
              Inl err \<Rightarrow> (False, Some err, x)
            | Inr x' \<Rightarrow> (True, None, x')))"
| "valueStringSliceMapper rf path target i (Embedded jsonTag efs # sfs) x key vs =
     (if Ignored jsonTag then valueStringSliceMapper rf path target (Suc i) sfs x key vs
      else (case valueStringSliceMapper rf (path @ [i]) efs 0 efs x key vs of
              (ret, Some err, x') \<Rightarrow> (False, Some err, x')
            | (True, None, x') \<Rightarrow> (True, None, x')
            | (False, None, x') \<Rightarrow>
                valueStringSliceMapper rf path target (Suc i) sfs x' key vs))"

section \<open>RequestObjectMapper\<close>

text \<open>
  The search for the argument to fill: the first slot that is not valid and whose declared
  type is a pointer to a struct.  \<open>b.ArgumentTypes[idx]\<close> panics when there are fewer types
  than arguments.
\<close>

fun findArgument ::
  "'o Value option list \<Rightarrow> rtype list \<Rightarrow> nat \<Rightarrow> error + (nat \<times> rtype) option" where
  "findArgument [] types idx = Inr None"
| "findArgument (arg # args) types idx =
     (if arg \<noteq> None then findArgument args types (Suc idx)
      else if length types \<le> idx then Inl (runtimePanic ''index out of range'')
      else if KindOf (types ! idx) \<noteq> Ptr
                \<or> map_option KindOf (Elem (types ! idx)) \<noteq> Some Struct
        then findArgument args types (Suc idx)
      else Inr (Some (idx, types ! idx)))"

text \<open>The loop over the path parameters: a parameter without a field ends the mapping.\<close>

fun pathParameters ::
  "'o Reflect \<Rightarrow> StructField list \<Rightarrow> (string \<times> string) list \<Rightarrow> 'o \<Rightarrow> error + 'o" where
  "pathParameters rf flds [] x = Inr x"
| "pathParameters rf flds ((key, v) # params) x =
     (case valueStringMapper rf [] 0 flds x key v of
        (found, err, x') \<Rightarrow>
          if \<not> found then Inl ErrPathParameterFieldMissing
          else pathParameters rf flds params x')"

definition pathStep :: "'o Reflect \<Rightarrow> StructField list \<Rightarrow> PathParameterValue \<Rightarrow> 'o \<Rightarrow> error + 'o" where
  "pathStep rf flds v x =
     (case v of
        NoValue \<Rightarrow> Inr x
      | NotStringMap \<Rightarrow> Inl ErrInvalidPathParameterType
      | Params params \<Rightarrow> pathParameters rf flds params x)"

text \<open>The loop over the query: the first error ends the mapping.\<close>

fun queryStep ::
  "'o Reflect \<Rightarrow> StructField list \<Rightarrow> (string \<times> string list) list \<Rightarrow> 'o \<Rightarrow> error + 'o" where
  "queryStep rf flds [] x = Inr x"
| "queryStep rf flds ((key, ss) # query) x =
     (case valueStringSliceMapper rf [] flds 0 flds x key ss of
        (found, Some err, x') \<Rightarrow> Inl err
      | (found, None, x') \<Rightarrow> queryStep rf flds query x')"

text \<open>Reading the body: a nil \<open>Body\<close> leaves the nil slice.\<close>

definition readBody :: "HttpRequest \<Rightarrow> error + string" where
  "readBody r = (case Body r of None \<Rightarrow> Inr [] | Some res \<Rightarrow> res)"

text \<open>The block \<open>request body as JSON\<close>.\<close>

definition bodyStep :: "'o Reflect \<Rightarrow> HttpRequest \<Rightarrow> string \<Rightarrow> 'o \<Rightarrow> error + 'o" where
  "bodyStep rf r body x =
     (let ct = Split CHR '';'' (HeaderContentType r) in
      if hd ct = ''application/json'' then
        (if length body = 2 then Inr x
         else if length body \<noteq> 0 then
           (case Unmarshal rf body x of
              Inl msg \<Rightarrow> Inl (httpError 400 msg)
            | Inr x' \<Rightarrow> Inr x')
         else Inr x)
      else Inr x)"

text \<open>The three sources in the order of the source: path, query, body.\<close>

definition mapRequest :: "'o Reflect \<Rightarrow> 'o Bubble \<Rightarrow> rtype \<Rightarrow> error + 'o" where
  "mapRequest rf b elemT =
     (case pathStep rf (FieldsOf elemT) (Context b) (New rf elemT) of
        Inl err \<Rightarrow> Inl err
      | Inr x1 \<Rightarrow>
          (case queryStep rf (FieldsOf elemT) (URLQuery (R b)) x1 of
             Inl err \<Rightarrow> Inl err
           | Inr x2 \<Rightarrow>
               (case readBody (R b) of
                  Inl err \<Rightarrow> Inl err
                | Inr body \<Rightarrow> bodyStep rf (R b) body x2)))"

text \<open>\<open>return b.Next()\<close>: the middleware returns what \<open>Next\<close> returned.\<close>

definition returnNext :: "'o Bubble \<Rightarrow> 'o Stage" where
  "returnNext b = CallNext b (\<lambda>err b'. Return err b')"

definition RequestObjectMapper :: "'o Reflect \<Rightarrow> 'o MiddlewareFunc" where
  "RequestObjectMapper rf b =
     (case findArgument (Arguments b) (ArgumentTypes b) 0 of
        Inl panic \<Rightarrow> Return (Some panic) b
      | Inr None \<Rightarrow> returnNext b
      | Inr (Some (argIdx, argT)) \<Rightarrow>
          (case Elem argT of
             None \<Rightarrow> Return (Some (runtimePanic ''reflect: Elem of invalid type'')) b
           | Some elemT \<Rightarrow>
               (case mapRequest rf b elemT of
                  Inl err \<Rightarrow> Return (Some err) b
                | Inr x \<Rightarrow>
                    returnNext (b\<lparr>Arguments := (Arguments b)[argIdx := Some (Value argT x)]\<rparr>))))"

section \<open>ServeMux\<close>

text \<open>
  \<open>ServeMux\<close> with the handlers of its router.  A plugin is its \<open>HandlersScannerProcess\<close>
  as a function of the routes.
\<close>

record 'o ServeMux =
  muxDebug :: bool
  handlers :: "'o HandlerValue RouteDefinition list"
  middlewares :: "'o MiddlewareFunc list"
  plugins :: "('o HandlerValue RouteDefinition list \<Rightarrow> error option) list"

text \<open>
  \<open>strings.ToUpper\<close> on the ASCII letters; other bytes are kept (the library also maps
  letters outside ASCII).
\<close>

definition ToUpper :: "string \<Rightarrow> string" where
  "ToUpper s =
     map (\<lambda>c. if 97 \<le> (of_char c :: nat) \<and> (of_char c :: nat) \<le> 122
               then char_of ((of_char c :: nat) - 32) else c) s"

text \<open>
  \<open>ServeMux.Handle\<close>: \<open>CheckFunction\<close> panics on a handler that is not a function; then one
  route per method is added.  Nothing else of the handler is looked at.
\<close>

definition Handle ::
  "'o ServeMux \<Rightarrow> string \<Rightarrow> string \<Rightarrow> 'o HandlerValue \<Rightarrow> error + 'o ServeMux" where
  "Handle m method path hc =
     (case hc of
        NotFunc \<Rightarrow> Inl (runtimePanic ''argument is not function'')
      | FuncValue hv \<Rightarrow>
          (let pathTmpl = ParsePathTemplate path;
               methods = Split CHR '','' (ToUpper method)
           in Inr (m\<lparr>handlers := handlers m @
                     map (\<lambda>method. \<lparr> Method = method, RoutePathTemplate = pathTmpl,
                                     HandlerContainer = hc \<rparr>) methods\<rparr>)))"

text \<open>\<open>ServeMux.Prepare\<close>: every plugin scans the routes; an error is a panic.\<close>

fun runPlugins ::
  "('o HandlerValue RouteDefinition list \<Rightarrow> error option) list
     \<Rightarrow> 'o HandlerValue RouteDefinition list \<Rightarrow> error option" where
  "runPlugins [] rds = None"
| "runPlugins (plugin # ps) rds =
     (case plugin rds of Some err \<Rightarrow> Some err | None \<Rightarrow> runPlugins ps rds)"

definition Prepare :: "'o ServeMux \<Rightarrow> error option" where
  "Prepare m = runPlugins (plugins m) (handlers m)"

text \<open>\<open>ServeMux.newBubble\<close> with \<open>Bubble.init\<close>.\<close>

definition newBubble ::
  "'o ServeMux \<Rightarrow> PathParameterValue \<Rightarrow> HttpRequest \<Rightarrow> 'o HandlerValue RouteDefinition
     \<Rightarrow> error + 'o Bubble" where
  "newBubble m c r rd =
     (case HandlerContainer rd of
        NotFunc \<Rightarrow> Inl (runtimePanic ''reflect: NumIn of non-func type'')
      | FuncValue hv \<Rightarrow>
          Inr \<lparr> R = r, W = [], Context = c, RequestHandler = HandlerContainer rd,
                Debug = muxDebug m, Handled = False, ArgumentTypes = In hv,
                Arguments = replicate (length (In hv)) None, Returns = [] \<rparr>)"

text \<open>
  \<open>Router.ServeHTTP\<close>: no route is answered with 404, a failed match or bubble with 500;
  otherwise the chain runs from its start, and a non-nil error it returns is answered
  with 500 (\<open>Finished\<close> carries the error; what \<open>http.Error\<close> makes of \<open>err.Error()\<close> is
  not modelled).
\<close>

datatype 'o Served =
    NotFound
  | InternalServerError string
  | Panicked error
  | Finished "error option" "'o Bubble" "event list"

definition ServeHTTP :: "'o Reflect \<Rightarrow> 'o ServeMux \<Rightarrow> HttpRequest \<Rightarrow> 'o Served" where
  "ServeHTTP rf m r =
     (case pickupBestRouteDefinition (handlers m) r of
        None \<Rightarrow> NotFound
      | Some rd \<Rightarrow>
          (case Match (RoutePathTemplate rd) (URLEscapedPath r) of
             (False, params) \<Rightarrow> InternalServerError ''[ucon] invalid handler picked''
           | (True, params) \<Rightarrow>
               (case newBubble m (Params (case params of None \<Rightarrow> [] | Some ps \<Rightarrow> ps)) r rd of
                  Inl err \<Rightarrow> Panicked err
                | Inr b \<Rightarrow>
                    (case Next rf (middlewares m) b 0 [] of
                       (err, b', queueIndex, tr) \<Rightarrow> Finished err b' tr))))"


section \<open>Auxiliary predicates\<close>

text \<open>
  The state of the selection loop (\<open>bestMethodMatchRate\<close>, \<open>bestPathMatchRate\<close>) once an
  entry with the exact method tier and the path tier \<open>p\<close> has been seen.
\<close>

definition seenExact :: "nat \<Rightarrow> nat \<times> nat \<Rightarrow> bool" where
  "seenExact p st = (case st of (bm, bp) \<Rightarrow> bm \<le> 3 \<and> p \<le> bp \<and> (bm = 3 \<or> p < bp))"

text \<open>
  A stage that calls \<open>Next\<close> at most once: it returns, or it calls \<open>Next\<close> and returns
  whatever that call gave it.
\<close>

definition callsNextAtMostOnce :: "'o Stage \<Rightarrow> bool" where
  "callsNextAtMostOnce s =
     (case s of
        Return err b \<Rightarrow> True
      | CallNext b k \<Rightarrow> (\<forall>err b'. \<exists>err' b''. k err b' = Return err' b''))"

text \<open>
  The first stage that returns without calling \<open>Next\<close> when the chain \<open>ms\<close>, standing at the
  positions from \<open>i\<close> on, is entered with the bubble \<open>b\<close> and every stage hands the bubble on
  with its first call of \<open>Next\<close>: its position, the error it returns and the bubble as it
  leaves it.  \<open>None\<close> when every stage calls \<open>Next\<close>.
\<close>

fun firstReturn ::
  "'o MiddlewareFunc list \<Rightarrow> nat \<Rightarrow> 'o Bubble \<Rightarrow> (nat \<times> error option \<times> 'o Bubble) option" where
  "firstReturn [] i b = None"
| "firstReturn (m # ms) i b =
     (case m b of
        Return err b' \<Rightarrow> Some (i, err, b')
      | CallNext b' k \<Rightarrow> firstReturn ms (Suc i) b')"

text \<open>
  The condition of C7 in the words of the specification: the three counts are equal, every
  slot holds a valid value, and the type of every value is assignable to the parameter of
  the handler at its position.
\<close>

definition argumentsFit :: "'o Reflect \<Rightarrow> 'o Bubble \<Rightarrow> 'o Handler \<Rightarrow> bool" where
  "argumentsFit rf b hv =
     (length (Arguments b) = length (ArgumentTypes b)
      \<and> length (Arguments b) = length (In hv)
      \<and> list_all2 (\<lambda>arg t. case arg of None \<Rightarrow> False | Some v \<Rightarrow> AssignableTo rf (TypeOf v) t)
           (Arguments b) (In hv))"

text \<open>
  Slot \<open>i\<close> of the bubble is still unresolved and declared as a pointer to a struct.
\<close>

definition structSlot :: "'o Bubble \<Rightarrow> nat \<Rightarrow> bool" where
  "structSlot b i =
     (i < length (Arguments b) \<and> i < length (ArgumentTypes b) \<and> Arguments b ! i = None
      \<and> (\<exists>t. ArgumentTypes b ! i = PtrT t \<and> KindOf t = Struct))"

text \<open>
  A struct has a field for a key: a field that is not ignored and whose key it is, in the
  struct itself or in an embedded struct that is not ignored.
\<close>

fun hasField :: "StructField list \<Rightarrow> string \<Rightarrow> bool" where
  "hasField [] key = False"
| "hasField (Field name jsonTag kind # sfs) key =
     ((\<not> Ignored jsonTag \<and> structFieldToKey name jsonTag = key) \<or> hasField sfs key)"
| "hasField (Embedded jsonTag efs # sfs) key =
     ((\<not> Ignored jsonTag \<and> hasField efs key) \<or> hasField sfs key)"

section \<open>Example values\<close>

text \<open>A route as \<open>Handle\<close> builds it, and a request with a method and a path.\<close>

definition route :: "string \<Rightarrow> string \<Rightarrow> 'h \<Rightarrow> 'h RouteDefinition" where
  "route method path hc =
     \<lparr> Method = method, RoutePathTemplate = ParsePathTemplate path, HandlerContainer = hc \<rparr>"

definition request :: "string \<Rightarrow> string \<Rightarrow> HttpRequest" where
  "request method path =
     \<lparr> reqMethod = method, URLPath = path, URLEscapedPath = path, URLQuery = [],
       HeaderContentType = [], Body = None \<rparr>"

text \<open>
  Contents without structure, and services on them that always succeed: types are
  assignable when they are equal.
\<close>

definition unitReflect :: "unit Reflect" where
  "unitReflect =
     \<lparr> AssignableTo = (\<lambda>a b. a = b), New = (\<lambda>t. ()),
       SetValueFromString = (\<lambda>x path s. Inr x),
       SetValueFromStrings = (\<lambda>x path ss. Inr x),
       Unmarshal = (\<lambda>body x. Inr x) \<rparr>"

text \<open>A handler without parameters and a bubble for it, as \<open>newBubble\<close> makes it.\<close>

definition plainHandler :: "unit Handler" where
  "plainHandler = \<lparr> In = [], Call = (\<lambda>vs. []) \<rparr>"

definition plainBubble :: "unit Bubble" where
  "plainBubble =
     \<lparr> R = request ''GET'' ''/'', W = [], Context = Params [],
       RequestHandler = FuncValue plainHandler, Debug = False, Handled = False,
       ArgumentTypes = [], Arguments = [], Returns = [] \<rparr>"

text \<open>
  Three stages: one that calls \<open>Next\<close> and, when that returns an error, calls it once more;
  one that returns an error without calling \<open>Next\<close>; one that only calls \<open>Next\<close>.
\<close>

definition retryStage :: "unit MiddlewareFunc" where
  "retryStage b =
     CallNext b (\<lambda>err b'. case err of None \<Rightarrow> Return None b' | Some e \<Rightarrow> returnNext b')"

definition refusingStage :: "unit MiddlewareFunc" where
  "refusingStage b = Return (Some (otherError ''refused'')) b"

definition passingStage :: "unit MiddlewareFunc" where
  "passingStage b = returnNext b"

text \<open>
  A handler of a request object with the one field \<open>Name\<close> (key \<open>name\<close>), a multiplexer with
  the mapper as its only middleware, and the same after the handler has been registered
  for \<open>GET /item/{id}\<close>.
\<close>

definition itemRequestT :: rtype where
  "itemRequestT = StructT ''ItemRequest'' [Field ''Name'' ''name'' Scalar]"

definition itemHandler :: "unit Handler" where
  "itemHandler = \<lparr> In = [PtrT itemRequestT], Call = (\<lambda>vs. []) \<rparr>"

definition emptyMux :: "unit ServeMux" where
  "emptyMux =
     \<lparr> muxDebug = False, handlers = [], middlewares = [RequestObjectMapper unitReflect],
       plugins = [] \<rparr>"

definition itemMux :: "unit ServeMux" where
  "itemMux = emptyMux\<lparr>handlers := [route ''GET'' ''/item/{id}'' (FuncValue itemHandler)]\<rparr>"

definition itemBubble :: "unit Bubble" where
  "itemBubble =
     \<lparr> R = request ''GET'' ''/item/5'', W = [], Context = Params [(''id'', ''5'')],
       RequestHandler = FuncValue itemHandler, Debug = False, Handled = False,
       ArgumentTypes = [PtrT itemRequestT], Arguments = [None], Returns = [] \<rparr>"

text \<open>A handler of two parameters and a bubble whose slots are both resolved.\<close>

definition twoArgHandler :: "unit Handler" where
  "twoArgHandler =
     \<lparr> In = [ScalarT ''int'', PtrT itemRequestT],
       Call = (\<lambda>vs. [Value (ScalarT ''string'') ()]) \<rparr>"

definition twoArgBubble :: "unit Bubble" where
  "twoArgBubble =
     \<lparr> R = request ''GET'' ''/'', W = [], Context = Params [],
       RequestHandler = FuncValue twoArgHandler, Debug = False, Handled = False,
       ArgumentTypes = [ScalarT ''int'', PtrT itemRequestT],
       Arguments = [Some (Value (ScalarT ''int'') ()), Some (Value (PtrT itemRequestT) ())],
       Returns = [] \<rparr>"

text \<open>A bubble with one resolved slot and two unresolved request-object slots.\<close>

definition threeSlotBubble :: "unit Bubble" where
  "threeSlotBubble =
     \<lparr> R = request ''GET'' ''/'', W = [], Context = Params [],
       RequestHandler = FuncValue \<lparr> In = [ScalarT ''int'', PtrT itemRequestT, PtrT itemRequestT],
                                     Call = (\<lambda>vs. []) \<rparr>,
       Debug = False, Handled = False,
       ArgumentTypes = [ScalarT ''int'', PtrT itemRequestT, PtrT itemRequestT],
       Arguments = [Some (Value (ScalarT ''int'') ()), None, None], Returns = [] \<rparr>"

text \<open>
  Services whose decoder rejects every body, and a bubble for a request with a JSON
  content type and the two-byte body \<open>{}\<close>.
\<close>

definition rejectingReflect :: "unit Reflect" where
  "rejectingReflect = unitReflect\<lparr>Unmarshal := (\<lambda>body x. Inl ''invalid character'')\<rparr>"

definition jsonBubble :: "unit Bubble" where
  "jsonBubble =
     itemBubble\<lparr>R := (request ''POST'' ''/item'')
                       \<lparr>HeaderContentType := ''application/json; charset=UTF-8'',
                        Body := Some (Inr ''{}'')\<rparr>,
                  Context := Params []\<rparr>"

section \<open>The selection loop\<close>

lemma pickupStep_cases:
  "pickupStep r (b, bm, bp) rd =
     (if methodMatchRate r rd \<noteq> 0 \<and> pathMatchRate r rd \<noteq> 0
         \<and> bm \<le> methodMatchRate r rd \<and> bp \<le> pathMatchRate r rd
         \<and> \<not> (bm = methodMatchRate r rd \<and> bp = pathMatchRate r rd)
      then (Some rd, methodMatchRate r rd, pathMatchRate r rd)
      else (b, bm, bp))"
  by (auto simp: pickupStep_def Let_def noMethodMatch_def noPathMatch_def)

lemma pickupLoop_mono:
  "foldl (pickupStep r) (b, bm, bp) xs = (b', bm', bp') \<Longrightarrow> bm \<le> bm' \<and> bp \<le> bp'"
proof (induction xs arbitrary: b bm bp)
  case Nil
  then show ?case by simp
next
  case (Cons x xs)
  obtain b1 bm1 bp1 where st: "pickupStep r (b, bm, bp) x = (b1, bm1, bp1)"
    by (cases "pickupStep r (b, bm, bp) x") auto
  from st have "bm \<le> bm1 \<and> bp \<le> bp1"
    by (auto simp: pickupStep_cases split: if_splits)
  moreover from Cons.prems st have "foldl (pickupStep r) (b1, bm1, bp1) xs = (b', bm', bp')"
    by simp
  then have "bm1 \<le> bm' \<and> bp1 \<le> bp'" by (rule Cons.IH)
  ultimately show ?case by auto
qed

lemma pickupLoop_first:
  "foldl (pickupStep r) (b, bm, bp) xs = (b', bm', bp') \<Longrightarrow>
     (b' = b \<and> bm' = bm \<and> bp' = bp) \<or>
     (\<exists>rd pre post. b' = Some rd \<and> xs = pre @ rd # post
        \<and> methodMatchRate r rd = bm' \<and> pathMatchRate r rd = bp'
        \<and> 0 < bm' \<and> 0 < bp'
        \<and> \<not> (bm = bm' \<and> bp = bp')
        \<and> list_all (\<lambda>x. \<not> (methodMatchRate r x = bm' \<and> pathMatchRate r x = bp')) pre)"
proof (induction xs arbitrary: b bm bp)
  case Nil
  then show ?case by simp
next
  case (Cons x xs)
  obtain b1 bm1 bp1 where st: "pickupStep r (b, bm, bp) x = (b1, bm1, bp1)"
    by (cases "pickupStep r (b, bm, bp) x") auto
  from Cons.prems st have rest: "foldl (pickupStep r) (b1, bm1, bp1) xs = (b', bm', bp')"
    by simp
  from rest have mono: "bm1 \<le> bm' \<and> bp1 \<le> bp'" by (rule pickupLoop_mono)
  from Cons.IH[OF rest] show ?case
  proof
    assume same: "b' = b1 \<and> bm' = bm1 \<and> bp' = bp1"
    show ?thesis
    proof (cases "(b1, bm1, bp1) = (b, bm, bp)")
      case True
      with same show ?thesis by simp
    next
      case False
      with st have "b1 = Some x \<and> bm1 = methodMatchRate r x \<and> bp1 = pathMatchRate r x
          \<and> 0 < bm1 \<and> 0 < bp1 \<and> \<not> (bm = bm1 \<and> bp = bp1)"
        by (auto simp: pickupStep_cases split: if_splits)
      with same have "b' = Some x \<and> x # xs = [] @ x # xs
          \<and> methodMatchRate r x = bm' \<and> pathMatchRate r x = bp'
          \<and> 0 < bm' \<and> 0 < bp'
          \<and> \<not> (bm = bm' \<and> bp = bp') \<and> list_all (\<lambda>x. \<not> (methodMatchRate r x = bm' \<and> pathMatchRate r x = bp')) []"
        by auto
      then show ?thesis by blast
    qed
  next
    assume "\<exists>rd pre post. b' = Some rd \<and> xs = pre @ rd # post
        \<and> methodMatchRate r rd = bm' \<and> pathMatchRate r rd = bp'
        \<and> 0 < bm' \<and> 0 < bp'
        \<and> \<not> (bm1 = bm' \<and> bp1 = bp')
        \<and> list_all (\<lambda>x. \<not> (methodMatchRate r x = bm' \<and> pathMatchRate r x = bp')) pre"
    then obtain rd pre post where sel: "b' = Some rd" "xs = pre @ rd # post"
        "methodMatchRate r rd = bm'" "pathMatchRate r rd = bp'"
        "0 < bm'" "0 < bp'"
        "\<not> (bm1 = bm' \<and> bp1 = bp')"
        "list_all (\<lambda>x. \<not> (methodMatchRate r x = bm' \<and> pathMatchRate r x = bp')) pre"
      by blast
    from st mono sel(5,6,7) have notie: "\<not> (methodMatchRate r x = bm' \<and> pathMatchRate r x = bp')"
      and ne: "\<not> (bm = bm' \<and> bp = bp')"
      by (auto simp: pickupStep_cases split: if_splits)
    from sel notie have "b' = Some rd \<and> x # xs = (x # pre) @ rd # post
        \<and> methodMatchRate r rd = bm' \<and> pathMatchRate r rd = bp'
        \<and> 0 < bm' \<and> 0 < bp'
        \<and> list_all (\<lambda>x. \<not> (methodMatchRate r x = bm' \<and> pathMatchRate r x = bp')) (x # pre)"
      by simp
    with ne show ?thesis by blast
  qed
qed


lemma pickupLoop_bounded:
  "bm \<le> m \<Longrightarrow> bp \<le> p \<Longrightarrow>
   \<forall>x \<in> set xs. methodMatchRate r x \<noteq> 0 \<and> pathMatchRate r x \<noteq> 0
        \<longrightarrow> methodMatchRate r x \<le> m \<and> pathMatchRate r x \<le> p \<Longrightarrow>
   foldl (pickupStep r) (b, bm, bp) xs = (b', bm', bp') \<Longrightarrow> bm' \<le> m \<and> bp' \<le> p"
proof (induction xs arbitrary: b bm bp)
  case Nil
  then show ?case by simp
next
  case (Cons x xs)
  obtain b1 bm1 bp1 where st: "pickupStep r (b, bm, bp) x = (b1, bm1, bp1)"
    by (cases "pickupStep r (b, bm, bp) x") auto
  from st Cons.prems(1,2,3) have le: "bm1 \<le> m" "bp1 \<le> p"
    by (auto simp: pickupStep_cases split: if_splits)
  from Cons.prems(3) have rest: "\<forall>x \<in> set xs. methodMatchRate r x \<noteq> 0 \<and> pathMatchRate r x \<noteq> 0
        \<longrightarrow> methodMatchRate r x \<le> m \<and> pathMatchRate r x \<le> p"
    by simp
  from Cons.prems(4) st have "foldl (pickupStep r) (b1, bm1, bp1) xs = (b', bm', bp')"
    by simp
  with le rest show ?case by (rule Cons.IH)
qed

lemma pickupLoop_stable:
  "\<forall>x \<in> set xs. \<not> (m \<le> methodMatchRate r x \<and> p \<le> pathMatchRate r x
        \<and> \<not> (methodMatchRate r x = m \<and> pathMatchRate r x = p)) \<Longrightarrow>
   foldl (pickupStep r) (b, m, p) xs = (b, m, p)"
proof (induction xs)
  case Nil
  then show ?case by simp
next
  case (Cons x xs)
  then have "pickupStep r (b, m, p) x = (b, m, p)"
    by (auto simp: pickupStep_cases)
  with Cons show ?case by simp
qed

lemma pickupLoop_selects:
  assumes m: "methodMatchRate r e \<noteq> 0" and p: "pathMatchRate r e \<noteq> 0"
    and first: "\<forall>x \<in> set pre. \<not> (methodMatchRate r x = methodMatchRate r e
                                   \<and> pathMatchRate r x = pathMatchRate r e)"
    and below: "\<forall>x \<in> set pre. methodMatchRate r x \<noteq> 0 \<and> pathMatchRate r x \<noteq> 0
        \<longrightarrow> methodMatchRate r x \<le> methodMatchRate r e \<and> pathMatchRate r x \<le> pathMatchRate r e"
    and after: "\<forall>x \<in> set post. \<not> (methodMatchRate r e \<le> methodMatchRate r x
        \<and> pathMatchRate r e \<le> pathMatchRate r x
        \<and> \<not> (methodMatchRate r x = methodMatchRate r e \<and> pathMatchRate r x = pathMatchRate r e))"
  shows "foldl (pickupStep r) (None, 0, 0) (pre @ e # post)
           = (Some e, methodMatchRate r e, pathMatchRate r e)"
proof -
  obtain b1 bm1 bp1 where st: "foldl (pickupStep r) (None, 0, 0) pre = (b1, bm1, bp1)"
    by (cases "foldl (pickupStep r) (None, 0, 0) pre") auto
  from pickupLoop_bounded [OF _ _ below st]
  have le: "bm1 \<le> methodMatchRate r e" "bp1 \<le> pathMatchRate r e" by simp_all
  have ne: "\<not> (bm1 = methodMatchRate r e \<and> bp1 = pathMatchRate r e)"
  proof
    assume eq: "bm1 = methodMatchRate r e \<and> bp1 = pathMatchRate r e"
    with m have "bm1 \<noteq> 0" by simp
    with pickupLoop_first [OF st] obtain rd pre' post' where
      "pre = pre' @ rd # post'" "methodMatchRate r rd = bm1" "pathMatchRate r rd = bp1"
      by auto
    with first eq show False by auto
  qed
  from le ne m p have "pickupStep r (b1, bm1, bp1) e
      = (Some e, methodMatchRate r e, pathMatchRate r e)"
    by (simp add: pickupStep_cases)
  with st after show ?thesis by (simp add: pickupLoop_stable)
qed

text \<open>
  C1 as stated fails where a third entry has higher tiers: the two wildcard entries for
  \<open>/a\<close> tie on both tiers for \<open>GET /a\<close>, and the request resolves to neither of them but
  to the \<open>GET\<close> entry registered after both.
\<close>

theorem third_entry_wins_counterexample:
  "methodMatchRate (request ''GET'' ''/a'') (route ''*'' ''/a'' (1::nat))
     = methodMatchRate (request ''GET'' ''/a'') (route ''*'' ''/a'' (2::nat))
   \<and> pathMatchRate (request ''GET'' ''/a'') (route ''*'' ''/a'' (1::nat))
     = pathMatchRate (request ''GET'' ''/a'') (route ''*'' ''/a'' (2::nat))
   \<and> methodMatchRate (request ''GET'' ''/a'') (route ''*'' ''/a'' (1::nat)) = starMethodMatch
   \<and> pathMatchRate (request ''GET'' ''/a'') (route ''*'' ''/a'' (1::nat)) = exactPathMatch
   \<and> pickupBestRouteDefinition
        [route ''*'' ''/a'' (1::nat), route ''*'' ''/a'' 2, route ''GET'' ''/a'' 3]
        (request ''GET'' ''/a'') = Some (route ''GET'' ''/a'' 3)
   \<and> route ''GET'' ''/a'' (3::nat) \<noteq> route ''*'' ''/a'' 1"
  by code_simp

text \<open>
  C1, amended.  (1) An entry whose method tier and path tier both equal those of the
  current best never replaces it.  (2) The entry \<open>pickupBestRouteDefinition\<close> returns is the
  first of the table with its pair of tiers: of two entries that tie, the one registered
  later is never the result.  (3) The first entry \<open>e\<close> of the table with its pair of tiers,
  both other than no-match, is the one returned whenever every eligible entry before it
  has tiers at most those of \<open>e\<close> and no entry after it has tiers at least those of \<open>e\<close>
  with one of them higher; entries after \<open>e\<close> that tie with it do not change the result.
\<close>

theorem tie_keeps_earlier:
  "(bm = methodMatchRate r x \<and> bp = pathMatchRate r x
      \<longrightarrow> pickupStep r (b, bm, bp) x = (b, bm, bp))
   \<and> (pickupBestRouteDefinition rds r = Some rd \<longrightarrow>
        (\<exists>j < length rds. rds ! j = rd
           \<and> (\<forall>i < j. \<not> (methodMatchRate r (rds ! i) = methodMatchRate r rd
                        \<and> pathMatchRate r (rds ! i) = pathMatchRate r rd))))
   \<and> (methodMatchRate r e \<noteq> noMethodMatch \<and> pathMatchRate r e \<noteq> noPathMatch
        \<and> (\<forall>y \<in> set pre. \<not> (methodMatchRate r y = methodMatchRate r e
                               \<and> pathMatchRate r y = pathMatchRate r e))
        \<and> (\<forall>y \<in> set pre. methodMatchRate r y \<noteq> noMethodMatch \<and> pathMatchRate r y \<noteq> noPathMatch
               \<longrightarrow> methodMatchRate r y \<le> methodMatchRate r e
                   \<and> pathMatchRate r y \<le> pathMatchRate r e)
        \<and> (\<forall>y \<in> set post. \<not> (methodMatchRate r e \<le> methodMatchRate r y
               \<and> pathMatchRate r e \<le> pathMatchRate r y
               \<and> \<not> (methodMatchRate r y = methodMatchRate r e
                       \<and> pathMatchRate r y = pathMatchRate r e)))
      \<longrightarrow> pickupBestRouteDefinition (pre @ e # post) r = Some e)"
proof (intro conjI impI)
  assume "bm = methodMatchRate r x \<and> bp = pathMatchRate r x"
  then show "pickupStep r (b, bm, bp) x = (b, bm, bp)"
    by (simp add: pickupStep_cases)
next
  assume sel: "pickupBestRouteDefinition rds r = Some rd"
  obtain b' bm' bp' where fin: "foldl (pickupStep r) (None, 0, 0) rds = (b', bm', bp')"
    by (cases "foldl (pickupStep r) (None, 0, 0) rds") auto
  with sel have b': "b' = Some rd"
    by (simp add: pickupBestRouteDefinition_def noMethodMatch_def noPathMatch_def)
  from pickupLoop_first[OF fin] b' obtain pre post where
    split: "rds = pre @ rd # post" and tiers: "methodMatchRate r rd = bm'" "pathMatchRate r rd = bp'"
    and first: "list_all (\<lambda>x. \<not> (methodMatchRate r x = bm' \<and> pathMatchRate r x = bp')) pre"
    by auto
  have "length pre < length rds" using split by simp
  moreover have "rds ! length pre = rd" using split by simp
  moreover have "\<forall>i < length pre. \<not> (methodMatchRate r (rds ! i) = methodMatchRate r rd
                        \<and> pathMatchRate r (rds ! i) = pathMatchRate r rd)"
    using first split tiers by (auto simp: list_all_length nth_append)
  ultimately show "\<exists>j < length rds. rds ! j = rd
           \<and> (\<forall>i < j. \<not> (methodMatchRate r (rds ! i) = methodMatchRate r rd
                        \<and> pathMatchRate r (rds ! i) = pathMatchRate r rd))"
    by blast
next
  assume a: "methodMatchRate r e \<noteq> noMethodMatch \<and> pathMatchRate r e \<noteq> noPathMatch
        \<and> (\<forall>y \<in> set pre. \<not> (methodMatchRate r y = methodMatchRate r e
                               \<and> pathMatchRate r y = pathMatchRate r e))
        \<and> (\<forall>y \<in> set pre. methodMatchRate r y \<noteq> noMethodMatch \<and> pathMatchRate r y \<noteq> noPathMatch
               \<longrightarrow> methodMatchRate r y \<le> methodMatchRate r e
                   \<and> pathMatchRate r y \<le> pathMatchRate r e)
        \<and> (\<forall>y \<in> set post. \<not> (methodMatchRate r e \<le> methodMatchRate r y
               \<and> pathMatchRate r e \<le> pathMatchRate r y
               \<and> \<not> (methodMatchRate r y = methodMatchRate r e
                       \<and> pathMatchRate r y = pathMatchRate r e)))"
  then have "foldl (pickupStep r) (None, 0, 0) (pre @ e # post)
           = (Some e, methodMatchRate r e, pathMatchRate r e)"
    by (intro pickupLoop_selects) (simp_all add: noMethodMatch_def noPathMatch_def)
  then show "pickupBestRouteDefinition (pre @ e # post) r = Some e"
    by (simp add: pickupBestRouteDefinition_def noMethodMatch_def noPathMatch_def)
qed


theorem tie_keeps_earlier_witness:
  "methodMatchRate (request ''GET'' ''/a/b'') (route ''GET'' ''/a/b'' (2::nat)) = 3
   \<and> pathMatchRate (request ''GET'' ''/a/b'') (route ''GET'' ''/a/b'' (2::nat)) = 4
   \<and> methodMatchRate (request ''GET'' ''/a/b'') (route ''GET'' ''/a/b'' (1::nat)) = 3
   \<and> pathMatchRate (request ''GET'' ''/a/b'') (route ''GET'' ''/a/b'' (1::nat)) = 4
   \<and> methodMatchRate (request ''GET'' ''/a/b'') (route ''POST'' ''/zzz'' (0::nat)) = 0
   \<and> pickupStep (request ''GET'' ''/a/b'') (Some (route ''GET'' ''/a/b'' 1), 3, 4)
         (route ''GET'' ''/a/b'' (2::nat)) = (Some (route ''GET'' ''/a/b'' 1), 3, 4)
   \<and> pickupBestRouteDefinition
         ([route ''POST'' ''/zzz'' (0::nat)] @ route ''GET'' ''/a/b'' 1 # [route ''GET'' ''/a/b'' 2])
         (request ''GET'' ''/a/b'') = Some (route ''GET'' ''/a/b'' 1)
   \<and> (\<exists>j < length ([route ''POST'' ''/zzz'' (0::nat)] @ route ''GET'' ''/a/b'' 1 # [route ''GET'' ''/a/b'' 2]).
         ([route ''POST'' ''/zzz'' (0::nat)] @ route ''GET'' ''/a/b'' 1 # [route ''GET'' ''/a/b'' 2]) ! j
           = route ''GET'' ''/a/b'' 1)"
proof -
  let ?r = "request ''GET'' ''/a/b''"
  let ?e0 = "route ''POST'' ''/zzz'' (0::nat)"
  let ?e1 = "route ''GET'' ''/a/b'' (1::nat)"
  let ?e2 = "route ''GET'' ''/a/b'' (2::nat)"
  have m2: "methodMatchRate ?r ?e2 = 3" by code_simp
  have p2: "pathMatchRate ?r ?e2 = 4" by code_simp
  have m1: "methodMatchRate ?r ?e1 = 3" by code_simp
  have p1: "pathMatchRate ?r ?e1 = 4" by code_simp
  have m0: "methodMatchRate ?r ?e0 = 0" by code_simp
  note t = tie_keeps_earlier [of 3 ?r ?e2 4 "Some ?e1" "[?e0] @ ?e1 # [?e2]" ?e1 ?e1 "[?e0]" "[?e2]"]
  from t m2 p2 have t1: "pickupStep ?r (Some ?e1, 3, 4) ?e2 = (Some ?e1, 3, 4)"
    by simp
  have hyp: "methodMatchRate ?r ?e1 \<noteq> noMethodMatch \<and> pathMatchRate ?r ?e1 \<noteq> noPathMatch
        \<and> (\<forall>y \<in> set [?e0]. \<not> (methodMatchRate ?r y = methodMatchRate ?r ?e1
                               \<and> pathMatchRate ?r y = pathMatchRate ?r ?e1))
        \<and> (\<forall>y \<in> set [?e0]. methodMatchRate ?r y \<noteq> noMethodMatch \<and> pathMatchRate ?r y \<noteq> noPathMatch
               \<longrightarrow> methodMatchRate ?r y \<le> methodMatchRate ?r ?e1
                   \<and> pathMatchRate ?r y \<le> pathMatchRate ?r ?e1)
        \<and> (\<forall>y \<in> set [?e2]. \<not> (methodMatchRate ?r ?e1 \<le> methodMatchRate ?r y
               \<and> pathMatchRate ?r ?e1 \<le> pathMatchRate ?r y
               \<and> \<not> (methodMatchRate ?r y = methodMatchRate ?r ?e1
                       \<and> pathMatchRate ?r y = pathMatchRate ?r ?e1)))"
    using m0 m1 p1 m2 p2 by (simp add: noMethodMatch_def noPathMatch_def)
  from t hyp have sel: "pickupBestRouteDefinition ([?e0] @ ?e1 # [?e2]) ?r = Some ?e1"
    by blast
  from t sel have t2: "\<exists>j < length ([?e0] @ ?e1 # [?e2]). ([?e0] @ ?e1 # [?e2]) ! j = ?e1"
    by blast
  from m2 p2 m1 p1 m0 t1 sel t2 show ?thesis by blast
qed

subsection \<open>Exact method against wildcard\<close>

lemma methodMatchRate_le: "methodMatchRate r rd \<le> 3"
  by (simp add: methodMatchRate_def starMethodMatch_def overloadMethodMatch_def
      exactMethodMatch_def noMethodMatch_def)

lemma methodMatchRate_exact:
  "Method rd = reqMethod r \<Longrightarrow> Method rd \<noteq> ''*'' \<Longrightarrow> methodMatchRate r rd = exactMethodMatch"
  by (auto simp: methodMatchRate_def)

lemma methodMatchRate_star: "Method rd = ''*'' \<Longrightarrow> methodMatchRate r rd = starMethodMatch"
  by (simp add: methodMatchRate_def)

lemma pathMatchRate_template:
  "RoutePathTemplate rd = RoutePathTemplate rd' \<Longrightarrow> pathMatchRate r rd = pathMatchRate r rd'"
  by (simp add: pathMatchRate_def Let_def)

lemma pickupStep_bound:
  "bm \<le> 3 \<Longrightarrow> pickupStep r (b, bm, bp) x = (b1, bm1, bp1) \<Longrightarrow> bm1 \<le> 3"
  using methodMatchRate_le [of r x]
  by (auto simp: pickupStep_cases split: if_splits)

lemma pickupStep_seenExact_keep:
  "seenExact p (bm, bp) \<Longrightarrow> pickupStep r (b, bm, bp) x = (b1, bm1, bp1) \<Longrightarrow> seenExact p (bm1, bp1)"
  using methodMatchRate_le [of r x]
  by (auto simp: pickupStep_cases seenExact_def split: if_splits)

lemma pickupStep_seenExact_at:
  "bm \<le> 3 \<Longrightarrow> methodMatchRate r x = 3 \<Longrightarrow> pathMatchRate r x = p \<Longrightarrow> 0 < p \<Longrightarrow>
     pickupStep r (b, bm, bp) x = (b1, bm1, bp1) \<Longrightarrow> seenExact p (bm1, bp1)"
  by (auto simp: pickupStep_cases seenExact_def split: if_splits)

lemma pickupLoop_seenExact_keep:
  "seenExact p (bm, bp) \<Longrightarrow> foldl (pickupStep r) (b, bm, bp) xs = (b', bm', bp') \<Longrightarrow>
     seenExact p (bm', bp')"
proof (induction xs arbitrary: b bm bp)
  case Nil
  then show ?case by simp
next
  case (Cons x xs)
  obtain b1 bm1 bp1 where st: "pickupStep r (b, bm, bp) x = (b1, bm1, bp1)"
    by (cases "pickupStep r (b, bm, bp) x") auto
  from Cons.prems(1) st have "seenExact p (bm1, bp1)" by (rule pickupStep_seenExact_keep)
  moreover from Cons.prems(2) st have "foldl (pickupStep r) (b1, bm1, bp1) xs = (b', bm', bp')"
    by simp
  ultimately show ?case by (rule Cons.IH)
qed

lemma pickupLoop_seenExact:
  "x \<in> set xs \<Longrightarrow> methodMatchRate r x = 3 \<Longrightarrow> pathMatchRate r x = p \<Longrightarrow> 0 < p \<Longrightarrow> bm \<le> 3 \<Longrightarrow>
     foldl (pickupStep r) (b, bm, bp) xs = (b', bm', bp') \<Longrightarrow> seenExact p (bm', bp')"
proof (induction xs arbitrary: b bm bp)
  case Nil
  then show ?case by simp
next
  case (Cons y ys)
  obtain b1 bm1 bp1 where st: "pickupStep r (b, bm, bp) y = (b1, bm1, bp1)"
    by (cases "pickupStep r (b, bm, bp) y") auto
  from Cons.prems(6) st have rest: "foldl (pickupStep r) (b1, bm1, bp1) ys = (b', bm', bp')"
    by simp
  show ?case
  proof (cases "x = y")
    case True
    with Cons.prems st have "seenExact p (bm1, bp1)"
      by (auto intro: pickupStep_seenExact_at)
    then show ?thesis using rest by (rule pickupLoop_seenExact_keep)
  next
    case False
    with Cons.prems(1) have "x \<in> set ys" by simp
    moreover from Cons.prems(5) st have "bm1 \<le> 3" by (rule pickupStep_bound)
    ultimately show ?thesis using Cons.prems(2,3,4) rest Cons.IH by blast
  qed
qed

text \<open>
  C2 as stated fails: a template without variables matches every path it is a prefix of,
  but a literal segment that differs from the request's scores nothing, and an entry whose
  path tier is \<open>noPathMatch\<close> is skipped.  The request \<open>GET /ab\<close> matches the template
  \<open>/a\<close> of both entries and resolves to neither.
\<close>

theorem match_without_tier_counterexample:
  "Method (route ''*'' ''/a'' (1::nat)) = ''*''
   \<and> Method (route ''GET'' ''/a'' (2::nat)) = reqMethod (request ''GET'' ''/ab'')
   \<and> RoutePathTemplate (route ''*'' ''/a'' (1::nat)) = RoutePathTemplate (route ''GET'' ''/a'' (2::nat))
   \<and> fst (Match (RoutePathTemplate (route ''GET'' ''/a'' (2::nat))) (URLPath (request ''GET'' ''/ab'')))
   \<and> pickupBestRouteDefinition [route ''*'' ''/a'' (1::nat), route ''GET'' ''/a'' 2]
        (request ''GET'' ''/ab'') = None"
  by code_simp

text \<open>
  C2, amended.  Let a wildcard entry and an entry with the concrete method of the request
  have the same path template, and let the request score a path tier other than
  \<open>noPathMatch\<close> on it.  A table of just the two resolves to the exact-method entry in
  either order.  In any table that holds both, the request resolves to some entry, never
  to the wildcard one: the selected entry has the exact method tier and at least the path
  tier of the pair, or a strictly higher path tier.
\<close>

theorem exact_method_beats_wildcard:
  assumes star: "Method rdStar = ''*''"
    and exact: "Method rdExact = reqMethod r" "Method rdExact \<noteq> ''*''"
    and same: "RoutePathTemplate rdStar = RoutePathTemplate rdExact"
    and rate: "pathMatchRate r rdExact \<noteq> noPathMatch"
  shows "pickupBestRouteDefinition [rdStar, rdExact] r = Some rdExact
     \<and> pickupBestRouteDefinition [rdExact, rdStar] r = Some rdExact
     \<and> (rdStar \<in> set rds \<and> rdExact \<in> set rds \<longrightarrow>
          (\<exists>rd. pickupBestRouteDefinition rds r = Some rd \<and> rd \<in> set rds \<and> rd \<noteq> rdStar
             \<and> pathMatchRate r rdExact \<le> pathMatchRate r rd
             \<and> (methodMatchRate r rd = exactMethodMatch
                  \<or> pathMatchRate r rdExact < pathMatchRate r rd)))"
proof (intro conjI impI)
  have mE: "methodMatchRate r rdExact = 3"
    using exact by (simp add: methodMatchRate_exact exactMethodMatch_def)
  have mW: "methodMatchRate r rdStar = 1"
    using star by (simp add: methodMatchRate_star starMethodMatch_def)
  have pW: "pathMatchRate r rdStar = pathMatchRate r rdExact"
    using same by (rule pathMatchRate_template)
  have pos: "0 < pathMatchRate r rdExact"
    using rate by (simp add: noPathMatch_def)
  show "pickupBestRouteDefinition [rdStar, rdExact] r = Some rdExact"
    using mE mW pW pos
    by (simp add: pickupBestRouteDefinition_def pickupStep_cases noMethodMatch_def noPathMatch_def)
  show "pickupBestRouteDefinition [rdExact, rdStar] r = Some rdExact"
    using mE mW pW pos
    by (simp add: pickupBestRouteDefinition_def pickupStep_cases noMethodMatch_def noPathMatch_def)
  assume mem: "rdStar \<in> set rds \<and> rdExact \<in> set rds"
  obtain b' bm' bp' where fin: "foldl (pickupStep r) (None, 0, 0) rds = (b', bm', bp')"
    by (cases "foldl (pickupStep r) (None, 0, 0) rds") auto
  from mem mE pos fin have seen: "seenExact (pathMatchRate r rdExact) (bm', bp')"
    by (auto intro: pickupLoop_seenExact)
  with pos have "bp' \<noteq> 0" by (simp add: seenExact_def)
  with pickupLoop_first [OF fin] obtain rd pre post where
    rd: "b' = Some rd" "rds = pre @ rd # post"
      "methodMatchRate r rd = bm'" "pathMatchRate r rd = bp'"
    by auto
  from rd fin have "pickupBestRouteDefinition rds r = Some rd"
    by (simp add: pickupBestRouteDefinition_def noMethodMatch_def noPathMatch_def)
  moreover from rd have "rd \<in> set rds" by simp
  moreover from seen rd have "pathMatchRate r rdExact \<le> pathMatchRate r rd"
    and "methodMatchRate r rd = exactMethodMatch \<or> pathMatchRate r rdExact < pathMatchRate r rd"
    by (auto simp: seenExact_def exactMethodMatch_def)
  moreover from this mW pW have "rd \<noteq> rdStar"
    by (auto simp: exactMethodMatch_def)
  ultimately show "\<exists>rd. pickupBestRouteDefinition rds r = Some rd \<and> rd \<in> set rds \<and> rd \<noteq> rdStar
             \<and> pathMatchRate r rdExact \<le> pathMatchRate r rd
             \<and> (methodMatchRate r rd = exactMethodMatch
                  \<or> pathMatchRate r rdExact < pathMatchRate r rd)"
    by blast
qed

theorem exact_method_beats_wildcard_witness:
  "Method (route ''*'' ''/a'' (1::nat)) = ''*''
   \<and> Method (route ''GET'' ''/a'' (2::nat)) = reqMethod (request ''GET'' ''/a'')
   \<and> pathMatchRate (request ''GET'' ''/a'') (route ''GET'' ''/a'' (2::nat)) = 2
   \<and> pickupBestRouteDefinition [route ''*'' ''/a'' (1::nat), route ''GET'' ''/a'' 2]
        (request ''GET'' ''/a'') = Some (route ''GET'' ''/a'' 2)
   \<and> pickupBestRouteDefinition [route ''GET'' ''/a'' 2, route ''*'' ''/a'' (1::nat)]
        (request ''GET'' ''/a'') = Some (route ''GET'' ''/a'' 2)
   \<and> (\<exists>rd. pickupBestRouteDefinition
              [route ''*'' ''/a/{b}'' 3, route ''GET'' ''/a/'' 2, route ''*'' ''/a/'' (1::nat)]
              (request ''GET'' ''/a/x'') = Some rd \<and> rd \<noteq> route ''*'' ''/a/'' 1)"
proof -
  let ?s = "route ''*'' ''/a'' (1::nat)"
  let ?e = "route ''GET'' ''/a'' (2::nat)"
  let ?r = "request ''GET'' ''/a''"
  let ?s' = "route ''*'' ''/a/'' (1::nat)"
  let ?e' = "route ''GET'' ''/a/'' (2::nat)"
  let ?x = "route ''*'' ''/a/{b}'' (3::nat)"
  let ?r' = "request ''GET'' ''/a/x''"
  have h1: "Method ?s = ''*''" by (simp add: route_def)
  have h2: "Method ?e = reqMethod ?r" "Method ?e \<noteq> ''*''" by (simp_all add: route_def request_def)
  have h3: "RoutePathTemplate ?s = RoutePathTemplate ?e" by (simp add: route_def)
  have h4: "pathMatchRate ?r ?e = 2" by code_simp
  then have h4': "pathMatchRate ?r ?e \<noteq> noPathMatch" by (simp add: noPathMatch_def)
  note t = exact_method_beats_wildcard [OF h1 h2 h3 h4', of "[]"]
  have g1: "Method ?s' = ''*''" by (simp add: route_def)
  have g2: "Method ?e' = reqMethod ?r'" "Method ?e' \<noteq> ''*''" by (simp_all add: route_def request_def)
  have g3: "RoutePathTemplate ?s' = RoutePathTemplate ?e'" by (simp add: route_def)
  have "pathMatchRate ?r' ?e' = 3" by code_simp
  then have g4: "pathMatchRate ?r' ?e' \<noteq> noPathMatch" by (simp add: noPathMatch_def)
  note t' = exact_method_beats_wildcard [OF g1 g2 g3 g4, of "[?x, ?e', ?s']"]
  from t' have t2: "\<exists>rd. pickupBestRouteDefinition [?x, ?e', ?s'] ?r' = Some rd \<and> rd \<noteq> ?s'"
    by auto
  from h1 h2 h4 t t2 show ?thesis by blast
qed


section \<open>Matching a path template\<close>

lemma Split_not_Nil: "Split sep s \<noteq> []"
  by (induction s) (auto split: list.splits)

lemma Split_subset: "tok \<in> set (Split sep s) \<Longrightarrow> c \<in> set tok \<Longrightarrow> c \<in> set s"
proof (induction s arbitrary: tok)
  case Nil
  then show ?case by simp
next
  case (Cons x xs)
  show ?case
  proof (cases "x = sep")
    case True
    with Cons show ?thesis by auto
  next
    case False
    obtain w ws where sp: "Split sep xs = w # ws"
      using Split_not_Nil [of sep xs] by (cases "Split sep xs") auto
    with False Cons.prems have "tok = x # w \<or> tok \<in> set ws" by simp
    then show ?thesis
    proof
      assume "tok = x # w"
      with Cons.prems(2) have "c = x \<or> c \<in> set w" by simp
      then show ?thesis using Cons.IH [of w] sp by auto
    next
      assume "tok \<in> set ws"
      with Cons.IH [of tok] Cons.prems(2) sp show ?thesis by simp
    qed
  qed
qed

lemma Index_Some: "c \<in> set s \<Longrightarrow> \<exists>v. Index s c = Some v \<and> v < length s"
  by (induction s) auto

lemma reMatchString_brace: "reMatchString s \<Longrightarrow> CHR ''{'' \<in> set s"
  by (cases s) (auto simp: reMatchString_def)

lemma variable_no_shortcut:
  assumes "True \<in> set (isVariables (ParsePathTemplate p))"
  shows "PathTemplate (ParsePathTemplate p) \<noteq> httpHandlePath (ParsePathTemplate p)"
proof -
  from assms obtain tok where tok: "tok \<in> set (Split CHR ''/'' p)" "reMatchString tok"
    by (auto simp: ParsePathTemplate_def Let_def)
  then have "CHR ''{'' \<in> set p"
    by (auto dest: reMatchString_brace intro: Split_subset)
  then obtain v where "Index p CHR ''{'' = Some v" "v < length p"
    using Index_Some by blast
  then have "httpHandlePath (ParsePathTemplate p) = take v p"
    and "length (take v p) \<noteq> length p"
    by (simp_all add: ParsePathTemplate_def Let_def)
  moreover have "PathTemplate (ParsePathTemplate p) = p"
    by (simp add: ParsePathTemplate_def Let_def)
  ultimately show ?thesis by metis
qed

lemma map_of_mapAssign: "map_of (mapAssign ps k v) = (map_of ps)(k \<mapsto> v)"
  by (induction ps k v rule: mapAssign.induct) (auto simp: fun_eq_iff)

lemma matchLoop_keep:
  "matchLoop ss vs rs params = Some m \<Longrightarrow>
     list_all (\<lambda>(s, v). \<not> (v \<and> reSubmatch s = k)) (zip ss vs) \<Longrightarrow>
     map_of m k = map_of params k"
  by (induction ss vs rs params rule: matchLoop.induct)
     (auto simp: map_of_mapAssign split: if_splits)

lemma matchLoop_nonempty:
  "matchLoop ss vs rs params = Some m \<Longrightarrow> length vs = length ss \<Longrightarrow> length rs = length ss \<Longrightarrow>
     i < length ss \<Longrightarrow> vs ! i \<Longrightarrow> rs ! i \<noteq> []"
proof (induction ss vs rs params arbitrary: i rule: matchLoop.induct)
  case (1 s ss v vs reqPart rs params)
  then show ?case by (cases i) (auto split: if_splits)
qed auto

lemma matchLoop_bind:
  "matchLoop ss vs rs params = Some m \<Longrightarrow> length vs = length ss \<Longrightarrow> length rs = length ss \<Longrightarrow>
     i < length ss \<Longrightarrow> vs ! i \<Longrightarrow>
     list_all (\<lambda>(s, v). \<not> (v \<and> reSubmatch s = reSubmatch (ss ! i))) (drop (Suc i) (zip ss vs)) \<Longrightarrow>
     map_of m (reSubmatch (ss ! i)) = Some (unescapeOrRaw (rs ! i))"
proof (induction ss vs rs params arbitrary: i rule: matchLoop.induct)
  case (1 s ss v vs reqPart rs params)
  show ?case
  proof (cases i)
    case 0
    with "1.prems" have v: "v" and ne: "reqPart \<noteq> []"
      and rest: "matchLoop ss vs rs (mapAssign params (reSubmatch s) (unescapeOrRaw reqPart)) = Some m"
      and later: "list_all (\<lambda>(s', v). \<not> (v \<and> reSubmatch s' = reSubmatch s)) (zip ss vs)"
      by (auto split: if_splits)
    from matchLoop_keep [OF rest later] show ?thesis
      using 0 by (simp add: map_of_mapAssign)
  next
    case (Suc n)
    with "1.prems" show ?thesis
      using "1.IH"(1) [of n] "1.IH"(2) [of n]
      by (auto split: if_splits)
  qed
qed auto

lemma matchLoop_empty_segment:
  "length vs = length ss \<Longrightarrow> length rs = length ss \<Longrightarrow> i < length ss \<Longrightarrow> vs ! i \<Longrightarrow>
     rs ! i = [] \<Longrightarrow> matchLoop ss vs rs params = None"
  using matchLoop_nonempty [of ss vs rs params _ i]
  by (cases "matchLoop ss vs rs params") auto

lemma Match_general:
  "PathTemplate pt \<noteq> httpHandlePath pt \<Longrightarrow>
   Match pt req =
     (if length (Split CHR ''/'' req) < length (splittedPathTemplate pt) then (False, None)
      else matchResult (matchLoop (splittedPathTemplate pt) (isVariables pt)
             (take (length (splittedPathTemplate pt)) (Split CHR ''/'' req)) []))"
  by (auto simp: Match_def Let_def)


lemma parsed_lengths:
  "length (isVariables (ParsePathTemplate p)) = length (splittedPathTemplate (ParsePathTemplate p))"
  by (simp add: ParsePathTemplate_def Let_def)

text \<open>
  C4 as stated fails where a template repeats a variable name: both segments assign the
  same key of the bindings, and the returned map holds the value of the later one only.
  For the template \<open>/{a}/{a}\<close> and the path \<open>/x/y\<close> the value \<open>x\<close> of the first variable
  segment is not in the returned map.
\<close>

theorem repeated_variable_counterexample:
  "True \<in> set (isVariables (ParsePathTemplate ''/{a}/{a}''))
   \<and> isVariables (ParsePathTemplate ''/{a}/{a}'') ! 1
   \<and> reSubmatch (splittedPathTemplate (ParsePathTemplate ''/{a}/{a}'') ! 1) = ''a''
   \<and> Split CHR ''/'' ''/x/y'' ! 1 = ''x''
   \<and> QueryUnescape ''x'' = Some ''x''
   \<and> Match (ParsePathTemplate ''/{a}/{a}'') ''/x/y'' = (True, Some [(''a'', ''y'')])
   \<and> map_of [(''a'', ''y'')] ''a'' \<noteq> Some ''x''"
  by code_simp

text \<open>
  C4, amended.  For a parsed template with at least one variable segment and every request
  path: (1) segments of the request beyond the template's length are ignored (two requests
  that agree on the first segments, as many as the template has, get the same result);
  (2) a request with fewer segments than the template does not match; (3) a match returns
  bindings; (4) on a match every variable segment stands against a non-empty request
  segment, and the bindings hold, under the variable's name, the unescaped value of that
  segment (the segment itself where it cannot be unescaped), unless a later variable
  segment has the same name; (5) there is no match when a variable segment stands against
  an empty request segment.
\<close>

theorem Match_variable_template:
  assumes pt: "pt = ParsePathTemplate p"
    and var: "True \<in> set (isVariables pt)"
  shows "(length (splittedPathTemplate pt) \<le> length (Split CHR ''/'' req)
            \<and> length (splittedPathTemplate pt) \<le> length (Split CHR ''/'' req')
            \<and> take (length (splittedPathTemplate pt)) (Split CHR ''/'' req)
                = take (length (splittedPathTemplate pt)) (Split CHR ''/'' req')
          \<longrightarrow> Match pt req = Match pt req')
     \<and> (length (Split CHR ''/'' req) < length (splittedPathTemplate pt)
          \<longrightarrow> Match pt req = (False, None))
     \<and> (fst (Match pt req) \<longrightarrow> (\<exists>params. Match pt req = (True, Some params)))
     \<and> (Match pt req = (True, Some params) \<and> i < length (splittedPathTemplate pt)
           \<and> isVariables pt ! i
          \<longrightarrow> Split CHR ''/'' req ! i \<noteq> []
              \<and> (list_all (\<lambda>(s, v). \<not> (v \<and> reSubmatch s = reSubmatch (splittedPathTemplate pt ! i)))
                    (drop (Suc i) (zip (splittedPathTemplate pt) (isVariables pt)))
                  \<longrightarrow> map_of params (reSubmatch (splittedPathTemplate pt ! i))
                        = Some (unescapeOrRaw (Split CHR ''/'' req ! i))))
     \<and> (i < length (splittedPathTemplate pt) \<and> i < length (Split CHR ''/'' req)
           \<and> isVariables pt ! i \<and> Split CHR ''/'' req ! i = []
          \<longrightarrow> Match pt req = (False, None))"
proof -
  let ?ts = "splittedPathTemplate pt"
  let ?vs = "isVariables pt"
  let ?n = "length ?ts"
  have gen: "\<And>q. Match pt q =
     (if length (Split CHR ''/'' q) < ?n then (False, None)
      else matchResult (matchLoop ?ts ?vs (take ?n (Split CHR ''/'' q)) []))"
    using variable_no_shortcut [of p] var pt by (simp add: Match_general)
  have len: "length ?vs = ?n"
    using pt by (simp add: parsed_lengths)
  have c1: "?n \<le> length (Split CHR ''/'' req) \<and> ?n \<le> length (Split CHR ''/'' req')
            \<and> take ?n (Split CHR ''/'' req) = take ?n (Split CHR ''/'' req')
          \<longrightarrow> Match pt req = Match pt req'"
    by (simp add: gen)
  have c2: "length (Split CHR ''/'' req) < ?n \<longrightarrow> Match pt req = (False, None)"
    by (simp add: gen)
  have c3: "fst (Match pt req) \<longrightarrow> (\<exists>params. Match pt req = (True, Some params))"
    by (auto simp: gen matchResult_def split: option.splits)
  have c4: "Match pt req = (True, Some params) \<and> i < ?n \<and> ?vs ! i
          \<longrightarrow> Split CHR ''/'' req ! i \<noteq> []
              \<and> (list_all (\<lambda>(s, v). \<not> (v \<and> reSubmatch s = reSubmatch (?ts ! i)))
                    (drop (Suc i) (zip ?ts ?vs))
                  \<longrightarrow> map_of params (reSubmatch (?ts ! i))
                        = Some (unescapeOrRaw (Split CHR ''/'' req ! i)))"
  proof (intro impI, elim conjE)
    assume m: "Match pt req = (True, Some params)" and i: "i < ?n" and v: "?vs ! i"
    from m have long: "\<not> length (Split CHR ''/'' req) < ?n"
      and loop: "matchLoop ?ts ?vs (take ?n (Split CHR ''/'' req)) [] = Some params"
      by (auto simp: gen matchResult_def split: if_splits option.splits)
    from long have rl: "length (take ?n (Split CHR ''/'' req)) = ?n" by simp
    from i have nth: "take ?n (Split CHR ''/'' req) ! i = Split CHR ''/'' req ! i" by simp
    from matchLoop_nonempty [OF loop len rl i v] nth
    have ne: "Split CHR ''/'' req ! i \<noteq> []" by simp
    have "list_all (\<lambda>(s, v). \<not> (v \<and> reSubmatch s = reSubmatch (?ts ! i)))
                    (drop (Suc i) (zip ?ts ?vs))
          \<longrightarrow> map_of params (reSubmatch (?ts ! i)) = Some (unescapeOrRaw (Split CHR ''/'' req ! i))"
      using matchLoop_bind [OF loop len rl i v] nth by simp
    with ne show "Split CHR ''/'' req ! i \<noteq> []
              \<and> (list_all (\<lambda>(s, v). \<not> (v \<and> reSubmatch s = reSubmatch (?ts ! i)))
                    (drop (Suc i) (zip ?ts ?vs))
                  \<longrightarrow> map_of params (reSubmatch (?ts ! i))
                        = Some (unescapeOrRaw (Split CHR ''/'' req ! i)))"
      by simp
  qed
  have c5: "i < ?n \<and> i < length (Split CHR ''/'' req) \<and> ?vs ! i \<and> Split CHR ''/'' req ! i = []
          \<longrightarrow> Match pt req = (False, None)"
  proof (intro impI, elim conjE)
    assume i: "i < ?n" and v: "?vs ! i" and e: "Split CHR ''/'' req ! i = []"
    show "Match pt req = (False, None)"
    proof (cases "length (Split CHR ''/'' req) < ?n")
      case True
      then show ?thesis by (simp add: gen)
    next
      case False
      then have rl: "length (take ?n (Split CHR ''/'' req)) = ?n" by simp
      from i e have "take ?n (Split CHR ''/'' req) ! i = []" by simp
      from matchLoop_empty_segment [OF len rl i v this]
      show ?thesis using False by (simp add: gen matchResult_def)
    qed
  qed
  from c1 c2 c3 c4 c5 show ?thesis by blast
qed


theorem Match_variable_template_witness:
  "True \<in> set (isVariables (ParsePathTemplate ''/u/{id}''))
   \<and> Match (ParsePathTemplate ''/u/{id}'') ''/u/a%20b/rest'' = (True, Some [(''id'', ''a b'')])
   \<and> Match (ParsePathTemplate ''/u/{id}'') ''/u/a%20b/rest''
        = Match (ParsePathTemplate ''/u/{id}'') ''/u/a%20b''
   \<and> map_of [(''id'', ''a b'')] (reSubmatch (splittedPathTemplate (ParsePathTemplate ''/u/{id}'') ! 2))
        = Some (unescapeOrRaw (Split CHR ''/'' ''/u/a%20b/rest'' ! 2))
   \<and> Match (ParsePathTemplate ''/u/{id}'') ''/u'' = (False, None)
   \<and> Match (ParsePathTemplate ''/u/{id}'') ''/u//x'' = (False, None)"
proof -
  let ?pt = "ParsePathTemplate ''/u/{id}''"
  have var: "True \<in> set (isVariables ?pt)" by code_simp
  have m: "Match ?pt ''/u/a%20b/rest'' = (True, Some [(''id'', ''a b'')])" by code_simp
  have h1: "length (splittedPathTemplate ?pt) \<le> length (Split CHR ''/'' ''/u/a%20b/rest'')
            \<and> length (splittedPathTemplate ?pt) \<le> length (Split CHR ''/'' ''/u/a%20b'')
            \<and> take (length (splittedPathTemplate ?pt)) (Split CHR ''/'' ''/u/a%20b/rest'')
                = take (length (splittedPathTemplate ?pt)) (Split CHR ''/'' ''/u/a%20b'')"
    by code_simp
  have h4: "2 < length (splittedPathTemplate ?pt) \<and> isVariables ?pt ! 2" by code_simp
  have h4': "list_all (\<lambda>(s, v). \<not> (v \<and> reSubmatch s = reSubmatch (splittedPathTemplate ?pt ! 2)))
                    (drop (Suc 2) (zip (splittedPathTemplate ?pt) (isVariables ?pt)))"
    by code_simp
  note a = Match_variable_template [OF refl var, of "''/u/a%20b/rest''" "''/u/a%20b''"
      "[(''id'', ''a b'')]" 2]
  from a h1 have g1: "Match ?pt ''/u/a%20b/rest'' = Match ?pt ''/u/a%20b''" by blast
  from a m h4 h4' have g4: "map_of [(''id'', ''a b'')] (reSubmatch (splittedPathTemplate ?pt ! 2))
        = Some (unescapeOrRaw (Split CHR ''/'' ''/u/a%20b/rest'' ! 2))"
    by blast
  have h2: "length (Split CHR ''/'' ''/u'') < length (splittedPathTemplate ?pt)" by code_simp
  note b = Match_variable_template [OF refl var, of "''/u''" "''/u''" "[]" 0]
  from b h2 have g2: "Match ?pt ''/u'' = (False, None)" by blast
  have h5: "2 < length (Split CHR ''/'' ''/u//x'') \<and> Split CHR ''/'' ''/u//x'' ! 2 = []"
    by code_simp
  note c = Match_variable_template [OF refl var, of "''/u//x''" "''/u//x''" "[]" 2]
  from c h4 h5 have g5: "Match ?pt ''/u//x'' = (False, None)" by blast
  from var m g1 g4 g2 g5 show ?thesis by blast
qed

lemma matchLoop_literal_mismatch:
  "length vs = length ss \<Longrightarrow> length rs = length ss \<Longrightarrow> i < length ss \<Longrightarrow> \<not> vs ! i \<Longrightarrow>
     ss ! i \<noteq> rs ! i \<Longrightarrow> matchLoop ss vs rs params = None"
proof (induction ss vs rs params arbitrary: i rule: matchLoop.induct)
  case (1 s ss v vs reqPart rs params)
  then show ?case by (cases i) auto
qed auto

text \<open>
  C5.  In the loop of \<open>Match\<close> a segment that is not a variable has to equal the request's
  segment, the empty segment after a trailing separator included: it is no wildcard.  Where
  the prefix shortcut is not taken (as for every template with a variable), a non-empty
  request segment against an empty template segment fails the match, such as \<open>/a/x/y\<close>
  against \<open>/a/{bar}/\<close>.
\<close>

theorem empty_literal_segment_is_literal:
  assumes "\<not> (PathTemplate pt = httpHandlePath pt \<and> HasPrefix req (httpHandlePath pt))"
    and "length (isVariables pt) = length (splittedPathTemplate pt)"
    and "i < length (splittedPathTemplate pt)" and "i < length (Split CHR ''/'' req)"
    and "\<not> isVariables pt ! i"
    and "splittedPathTemplate pt ! i = []"
    and "Split CHR ''/'' req ! i \<noteq> []"
  shows "Match pt req = (False, None)"
proof (cases "length (Split CHR ''/'' req) < length (splittedPathTemplate pt)")
  case True
  with assms(1) show ?thesis by (auto simp: Match_def Let_def)
next
  case False
  let ?n = "length (splittedPathTemplate pt)"
  from False have rl: "length (take ?n (Split CHR ''/'' req)) = ?n" by simp
  from assms(3,6,7) have "splittedPathTemplate pt ! i \<noteq> take ?n (Split CHR ''/'' req) ! i"
    by simp
  from matchLoop_literal_mismatch [OF assms(2) rl assms(3,5) this]
  have "matchLoop (splittedPathTemplate pt) (isVariables pt) (take ?n (Split CHR ''/'' req)) [] = None" .
  with False assms(1) show ?thesis
    by (auto simp: Match_def Let_def matchResult_def)
qed


theorem empty_literal_segment_is_literal_witness:
  "splittedPathTemplate (ParsePathTemplate ''/a/{bar}/'') ! 3 = []
   \<and> \<not> isVariables (ParsePathTemplate ''/a/{bar}/'') ! 3
   \<and> Split CHR ''/'' ''/a/x/y'' ! 3 = ''y''
   \<and> Match (ParsePathTemplate ''/a/{bar}/'') ''/a/x/y'' = (False, None)"
proof -
  let ?pt = "ParsePathTemplate ''/a/{bar}/''"
  have h1: "\<not> (PathTemplate ?pt = httpHandlePath ?pt \<and> HasPrefix ''/a/x/y'' (httpHandlePath ?pt))"
    by code_simp
  have h2: "length (isVariables ?pt) = length (splittedPathTemplate ?pt)" by code_simp
  have h3: "3 < length (splittedPathTemplate ?pt)" by code_simp
  have h4: "3 < length (Split CHR ''/'' ''/a/x/y'')" by code_simp
  have h5: "\<not> isVariables ?pt ! 3" by code_simp
  have h6: "splittedPathTemplate ?pt ! 3 = []" by code_simp
  have h7: "Split CHR ''/'' ''/a/x/y'' ! 3 = ''y''" by code_simp
  then have h7': "Split CHR ''/'' ''/a/x/y'' ! 3 \<noteq> []" by simp
  from empty_literal_segment_is_literal [OF h1 h2 h3 h4 h5 h6 h7'] h5 h6 h7
  show ?thesis by blast
qed

text \<open>
  C3.  With \<open>/a/\<close> and \<open>/a/{bar}/\<close> registered for \<open>GET\<close>, the request \<open>GET /a/x/y\<close> is
  routed to \<open>/a/\<close> in either order of registration: \<open>/a/{bar}/\<close> does not match (its
  empty last segment stands against \<open>y\<close>) and gets the path tier \<open>noPathMatch\<close>.
\<close>

theorem trailing_variable_route_not_selected:
  "pathMatchRate (request ''GET'' ''/a/x/y'') (route ''GET'' ''/a/{bar}/'' (2::nat)) = noPathMatch
   \<and> pathMatchRate (request ''GET'' ''/a/x/y'') (route ''GET'' ''/a/'' (1::nat)) = 3
   \<and> pickupBestRouteDefinition [route ''GET'' ''/a/'' (1::nat), route ''GET'' ''/a/{bar}/'' 2]
        (request ''GET'' ''/a/x/y'') = Some (route ''GET'' ''/a/'' 1)
   \<and> pickupBestRouteDefinition [route ''GET'' ''/a/{bar}/'' 2, route ''GET'' ''/a/'' (1::nat)]
        (request ''GET'' ''/a/x/y'') = Some (route ''GET'' ''/a/'' 1)"
  by code_simp



section \<open>The middleware chain\<close>

lemma do_queueIndex: "do rf b q t = (e, b', q', t') \<Longrightarrow> q' = q"
  by (auto simp: do_def split: HandlerValue.splits if_splits sum.splits)

lemma exec_mono:
  assumes nxt: "\<And>b q t e b' q' t'. nxt b q t = (e, b', q', t') \<Longrightarrow> q \<le> q'"
  shows "exec nxt s q t = (e, b', q', t') \<Longrightarrow> q \<le> q'"
proof (induction s arbitrary: q t)
  case (Return err b)
  then show ?case by simp
next
  case (CallNext b k)
  obtain e1 b1 q1 t1 where n: "nxt b q t = (e1, b1, q1, t1)"
    by (cases "nxt b q t") auto
  from n have le: "q \<le> q1" by (rule nxt)
  show ?case
  proof (cases "isPanic e1")
    case True
    with CallNext.prems n le show ?thesis by simp
  next
    case False
    with CallNext.prems n have "exec nxt (k e1 b1) q1 t1 = (e, b', q', t')" by simp
    then have "q1 \<le> q'" by (rule CallNext.IH [OF rangeI rangeI])
    with le show ?thesis by simp
  qed
qed

lemma nextFrom_mono: "nextFrom rf ms i b q t = (e, b', q', t') \<Longrightarrow> q \<le> q'"
proof (induction ms arbitrary: i b q t e b' q' t')
  case Nil
  then show ?case by (auto dest: do_queueIndex)
next
  case (Cons m ms)
  show ?case
  proof (cases "q = i")
    case True
    with Cons.prems have "exec (nextFrom rf ms (Suc i)) (m b) (Suc i) (t @ [StageEv i]) = (e, b', q', t')"
      by simp
    then have "Suc i \<le> q'" by (rule exec_mono [rotated]) (rule Cons.IH)
    with True show ?thesis by simp
  next
    case False
    with Cons.prems have "nextFrom rf ms (Suc i) b q t = (e, b', q', t')" by simp
    then show ?thesis by (rule Cons.IH)
  qed
qed

lemma exec_cong_from:
  assumes agree: "\<And>b q t. n \<le> q \<Longrightarrow> nxt1 b q t = nxt2 b q t"
    and mono: "\<And>b q t e b' q' t'. nxt1 b q t = (e, b', q', t') \<Longrightarrow> q \<le> q'"
  shows "n \<le> q \<Longrightarrow> exec nxt1 s q t = exec nxt2 s q t"
proof (induction s arbitrary: q t)
  case (Return err b)
  then show ?case by simp
next
  case (CallNext b k)
  obtain e1 b1 q1 t1 where n1: "nxt1 b q t = (e1, b1, q1, t1)"
    by (cases "nxt1 b q t") auto
  with agree [OF CallNext.prems] have n2: "nxt2 b q t = (e1, b1, q1, t1)" by simp
  from n1 have "q \<le> q1" by (rule mono)
  with CallNext.prems have "n \<le> q1" by simp
  then have "exec nxt1 (k e1 b1) q1 t1 = exec nxt2 (k e1 b1) q1 t1"
    by (rule CallNext.IH [OF rangeI rangeI])
  with n1 n2 show ?case by simp
qed

lemma nextFrom_past: "i + length ms \<le> q \<Longrightarrow> nextFrom rf ms i b q t = do rf b q t"
  by (induction ms arbitrary: i) auto

lemma nextFrom_unfold:
  "i \<le> q \<Longrightarrow>
   nextFrom rf ms i b q t =
     (if q - i < length ms
      then exec (nextFrom rf ms i) ((ms ! (q - i)) b) (Suc q) (t @ [StageEv q])
      else do rf b q t)"
proof (induction ms arbitrary: i)
  case Nil
  then show ?case by simp
next
  case (Cons m ms)
  have agree: "\<And>b' q' t'. Suc i \<le> q' \<Longrightarrow> nextFrom rf ms (Suc i) b' q' t' = nextFrom rf (m # ms) i b' q' t'"
    by simp
  have ex: "\<And>s q' t'. Suc i \<le> q' \<Longrightarrow>
      exec (nextFrom rf ms (Suc i)) s q' t' = exec (nextFrom rf (m # ms) i) s q' t'"
    by (rule exec_cong_from [where n = "Suc i"]) (auto dest: nextFrom_mono)
  show ?case
  proof (cases "q = i")
    case True
    then show ?thesis using ex [of "Suc i"] by simp
  next
    case False
    with Cons.prems have lt: "Suc i \<le> q" by simp
    then have "q - i = Suc (q - Suc i)" by simp
    with Cons.IH [OF lt] False lt ex [of "Suc q"] show ?thesis by simp
  qed
qed

text \<open>
  \<open>Next\<close> in the form of the source: below the end of the chain the cursor advances and the
  middleware at the old position runs, its calls of \<open>Next\<close> being calls of this very
  function; otherwise \<open>do\<close> runs.
\<close>

lemma Next_unfold:
  "Next rf mws b queueIndex tr =
     (if queueIndex < length mws
      then exec (Next rf mws) ((mws ! queueIndex) b) (Suc queueIndex)
             (tr @ [StageEv queueIndex])
      else do rf b queueIndex tr)"
proof -
  have "Next rf mws = nextFrom rf mws 0"
    by (simp add: Next_def fun_eq_iff)
  then show ?thesis
    using nextFrom_unfold [of 0 queueIndex rf mws b tr] by (simp add: Next_def)
qed

lemma firstReturn_le: "firstReturn ms i b = Some (k, e, b') \<Longrightarrow> i \<le> k"
proof (induction ms arbitrary: i b)
  case Nil
  then show ?case by simp
next
  case (Cons m ms)
  then show ?case by (fastforce split: Stage.splits)
qed

lemma nextFrom_firstReturn:
  "\<forall>m \<in> set ms. \<forall>x. callsNextAtMostOnce (m x) \<Longrightarrow> firstReturn ms i b = Some (k, e, b') \<Longrightarrow>
     \<exists>err bf. nextFrom rf ms i b i tr = (err, bf, Suc k, tr @ map StageEv [i..<Suc k])"
proof (induction ms arbitrary: i b tr)
  case Nil
  then show ?case by simp
next
  case (Cons m ms)
  show ?case
  proof (cases "m b")
    case (Return err b1)
    with Cons.prems(2) show ?thesis by simp
  next
    case (CallNext b1 kk)
    with Cons.prems(2) have fr: "firstReturn ms (Suc i) b1 = Some (k, e, b')" by simp
    then have le: "Suc i \<le> k" by (rule firstReturn_le)
    from Cons.prems(1) have once: "\<forall>m \<in> set ms. \<forall>x. callsNextAtMostOnce (m x)" by simp
    from Cons.IH [OF once fr, of "tr @ [StageEv i]"] obtain err bf where
      nx: "nextFrom rf ms (Suc i) b1 (Suc i) (tr @ [StageEv i])
            = (err, bf, Suc k, (tr @ [StageEv i]) @ map StageEv [Suc i..<Suc k])"
      by blast
    from Cons.prems(1) have "callsNextAtMostOnce (m b)" by simp
    with CallNext have "\<exists>err' b''. kk err bf = Return err' b''"
      by (simp add: callsNextAtMostOnce_def)
    then obtain err' b'' where kk: "kk err bf = Return err' b''"
      by blast
    from le have "[i..<Suc k] = i # [Suc i..<Suc k]"
      by (simp add: upt_conv_Cons)
    with CallNext nx kk show ?thesis by (cases "isPanic err") auto
  qed
qed

text \<open>
  C6 as stated fails for a chain in which an earlier stage calls \<open>Next\<close> again: the cursor
  stands behind the stage that returned, so the second call runs the stages after it and
  the handler.  Here the stage at position 1 returns an error without calling \<open>Next\<close>, the
  stage at position 0 calls \<open>Next\<close> once more, and the stage at position 2 and the handler
  are invoked (\<open>Handled\<close> is set).
\<close>

theorem retry_runs_later_stages_counterexample:
  "refusingStage plainBubble = Return (Some (otherError ''refused'')) plainBubble
   \<and> Next unitReflect [retryStage, refusingStage, passingStage] plainBubble 0 []
      = (None, plainBubble\<lparr>Returns := [], Handled := True\<rparr>, 3,
         [StageEv 0, StageEv 1, StageEv 2, HandlerEv])"
  by (simp add: Next_def retryStage_def refusingStage_def passingStage_def returnNext_def
      do_def plainBubble_def plainHandler_def unitReflect_def numeral_3_eq_3)

text \<open>
  C6, amended.  (1) In every chain, when the stage at the cursor returns without calling
  \<open>Next\<close>, the call of \<open>Next\<close> that ran it returns the stage's error and leaves the bubble
  as the stage left it, and it has invoked that stage only: no later stage, not the
  handler, and \<open>Handled\<close> is not set by the engine.  (2) In a chain whose stages call
  \<open>Next\<close> at most once, when stage \<open>k\<close> is the first to return without calling \<open>Next\<close>, the
  request invokes the stages 0 to \<open>k\<close> and nothing else: no stage after \<open>k\<close> and never the
  handler.
\<close>

theorem stage_without_Next_short_circuits:
  "(i < length mws \<and> (mws ! i) b = Return e b'
      \<longrightarrow> Next rf mws b i tr = (e, b', Suc i, tr @ [StageEv i]))
   \<and> ((\<forall>m \<in> set mws. \<forall>x. callsNextAtMostOnce (m x)) \<and> firstReturn mws 0 b = Some (k, e, b')
      \<longrightarrow> (\<exists>err bf tr'. Next rf mws b 0 [] = (err, bf, Suc k, tr')
            \<and> tr' = map StageEv [0..<Suc k]
            \<and> HandlerEv \<notin> set tr'
            \<and> (\<forall>j. k < j \<longrightarrow> StageEv j \<notin> set tr')))"
proof (intro conjI impI)
  assume "i < length mws \<and> (mws ! i) b = Return e b'"
  then show "Next rf mws b i tr = (e, b', Suc i, tr @ [StageEv i])"
    by (subst Next_unfold) simp
next
  assume a: "(\<forall>m \<in> set mws. \<forall>x. callsNextAtMostOnce (m x)) \<and> firstReturn mws 0 b = Some (k, e, b')"
  then obtain err bf where "nextFrom rf mws 0 b 0 [] = (err, bf, Suc k, [] @ map StageEv [0..<Suc k])"
    using nextFrom_firstReturn [of mws 0 b k e b' rf "[]"] by blast
  then have "Next rf mws b 0 [] = (err, bf, Suc k, map StageEv [0..<Suc k])"
    by (simp add: Next_def)
  moreover have "HandlerEv \<notin> set (map StageEv [0..<Suc k])" by auto
  moreover have "\<forall>j. k < j \<longrightarrow> StageEv j \<notin> set (map StageEv [0..<Suc k])" by auto
  ultimately show "\<exists>err bf tr'. Next rf mws b 0 [] = (err, bf, Suc k, tr')
            \<and> tr' = map StageEv [0..<Suc k]
            \<and> HandlerEv \<notin> set tr'
            \<and> (\<forall>j. k < j \<longrightarrow> StageEv j \<notin> set tr')"
    by blast
qed



theorem stage_without_Next_short_circuits_witness:
  "([passingStage, refusingStage, passingStage] ! 1) plainBubble
      = Return (Some (otherError ''refused'')) plainBubble
   \<and> firstReturn [passingStage, refusingStage, passingStage] 0 plainBubble
      = Some (1, Some (otherError ''refused''), plainBubble)
   \<and> Next unitReflect [passingStage, refusingStage, passingStage] plainBubble 1 [StageEv 0]
      = (Some (otherError ''refused''), plainBubble, Suc 1, [StageEv 0] @ [StageEv 1])
   \<and> (\<exists>err bf. Next unitReflect [passingStage, refusingStage, passingStage] plainBubble 0 []
         = (err, bf, Suc 1, map StageEv [0..<Suc 1]))"
proof -
  let ?mws = "[passingStage, refusingStage, passingStage]"
  let ?e = "Some (otherError ''refused'')"
  have h1: "1 < length ?mws \<and> (?mws ! 1) plainBubble = Return ?e plainBubble"
    by (simp add: refusingStage_def)
  have h2: "\<forall>m \<in> set ?mws. \<forall>x. callsNextAtMostOnce (m x)"
    by (simp add: callsNextAtMostOnce_def passingStage_def refusingStage_def returnNext_def)
  have h3: "firstReturn ?mws 0 plainBubble = Some (1, ?e, plainBubble)"
    by (simp add: passingStage_def refusingStage_def returnNext_def)
  note t = stage_without_Next_short_circuits [of 1 ?mws plainBubble ?e plainBubble unitReflect
      "[StageEv 0]" 1]
  from t h1 have g1: "Next unitReflect ?mws plainBubble 1 [StageEv 0]
      = (?e, plainBubble, Suc 1, [StageEv 0] @ [StageEv 1])"
    by blast
  from t h2 h3 have g2: "\<exists>err bf. Next unitReflect ?mws plainBubble 0 []
         = (err, bf, Suc 1, map StageEv [0..<Suc 1])"
    by blast
  from h1 h3 g1 g2 show ?thesis by blast
qed

lemma checkArguments_fit:
  "length args = length ins \<Longrightarrow>
   checkArguments rf args ins =
     (if list_all2 (\<lambda>arg t. case arg of None \<Rightarrow> False | Some v \<Rightarrow> AssignableTo rf (TypeOf v) t)
           args ins
      then Inr (map the args) else Inl ErrInvalidArgumentValue)"
proof (induction args ins rule: list_induct2)
  case Nil
  then show ?case by simp
next
  case (Cons arg args t ins)
  then show ?case by (cases arg) auto
qed

text \<open>
  C7.  Once the cursor has passed the last middleware, \<open>Next\<close> calls the handler exactly
  when the arguments fit: then it reports no error, stores what the handler returns, sets
  \<open>Handled\<close> and records the invocation.  Otherwise it returns \<open>ErrInvalidArgumentLength\<close>
  (the counts differ) or \<open>ErrInvalidArgumentValue\<close> (a slot is not valid or not assignable),
  and the bubble and the record of invocations are as before.
\<close>

theorem handler_called_iff_arguments_fit:
  assumes past: "length mws \<le> queueIndex"
    and func: "RequestHandler b = FuncValue hv"
  shows "(argumentsFit rf b hv \<longrightarrow>
            Next rf mws b queueIndex tr
              = (None, b\<lparr>Returns := Call hv (map the (Arguments b)), Handled := True\<rparr>,
                 queueIndex, tr @ [HandlerEv]))
     \<and> (\<not> argumentsFit rf b hv \<longrightarrow>
            Next rf mws b queueIndex tr
              = (Some (if length (Arguments b) = length (ArgumentTypes b)
                          \<and> length (Arguments b) = length (In hv)
                       then ErrInvalidArgumentValue else ErrInvalidArgumentLength),
                 b, queueIndex, tr))"
proof -
  from past have "Next rf mws b queueIndex tr = do rf b queueIndex tr"
    by (simp add: Next_def nextFrom_past)
  then show ?thesis
    using func by (auto simp: do_def argumentsFit_def checkArguments_fit)
qed


theorem handler_called_iff_arguments_fit_witness:
  "argumentsFit unitReflect twoArgBubble twoArgHandler
   \<and> Next unitReflect [passingStage] twoArgBubble 1 [StageEv 0]
       = (None, twoArgBubble\<lparr>Returns := [Value (ScalarT ''string'') ()], Handled := True\<rparr>, 1,
          [StageEv 0, HandlerEv])
   \<and> \<not> argumentsFit unitReflect (twoArgBubble\<lparr>Arguments := [None, None]\<rparr>) twoArgHandler
   \<and> Next unitReflect [passingStage] (twoArgBubble\<lparr>Arguments := [None, None]\<rparr>) 1 [StageEv 0]
       = (Some ErrInvalidArgumentValue, twoArgBubble\<lparr>Arguments := [None, None]\<rparr>, 1, [StageEv 0])
   \<and> \<not> argumentsFit unitReflect (twoArgBubble\<lparr>Arguments := []\<rparr>) twoArgHandler
   \<and> Next unitReflect [passingStage] (twoArgBubble\<lparr>Arguments := []\<rparr>) 1 [StageEv 0]
       = (Some ErrInvalidArgumentLength, twoArgBubble\<lparr>Arguments := []\<rparr>, 1, [StageEv 0])"
proof -
  have p: "length [passingStage] \<le> (1::nat)" by simp
  have f: "RequestHandler twoArgBubble = FuncValue twoArgHandler"
    "RequestHandler (twoArgBubble\<lparr>Arguments := [None, None]\<rparr>) = FuncValue twoArgHandler"
    "RequestHandler (twoArgBubble\<lparr>Arguments := []\<rparr>) = FuncValue twoArgHandler"
    by (simp_all add: twoArgBubble_def)
  have a1: "argumentsFit unitReflect twoArgBubble twoArgHandler"
    by (simp add: argumentsFit_def twoArgBubble_def twoArgHandler_def unitReflect_def)
  have a2: "\<not> argumentsFit unitReflect (twoArgBubble\<lparr>Arguments := [None, None]\<rparr>) twoArgHandler"
    by (simp add: argumentsFit_def twoArgBubble_def twoArgHandler_def unitReflect_def)
  have a3: "\<not> argumentsFit unitReflect (twoArgBubble\<lparr>Arguments := []\<rparr>) twoArgHandler"
    by (simp add: argumentsFit_def twoArgBubble_def twoArgHandler_def unitReflect_def)
  from handler_called_iff_arguments_fit [OF p f(1), of unitReflect "[StageEv 0]"] a1
  have g1: "Next unitReflect [passingStage] twoArgBubble 1 [StageEv 0]
       = (None, twoArgBubble\<lparr>Returns := [Value (ScalarT ''string'') ()], Handled := True\<rparr>, 1,
          [StageEv 0, HandlerEv])"
    by (simp add: twoArgHandler_def)
  from handler_called_iff_arguments_fit [OF p f(2), of unitReflect "[StageEv 0]"] a2
  have g2: "Next unitReflect [passingStage] (twoArgBubble\<lparr>Arguments := [None, None]\<rparr>) 1 [StageEv 0]
       = (Some ErrInvalidArgumentValue, twoArgBubble\<lparr>Arguments := [None, None]\<rparr>, 1, [StageEv 0])"
    by (simp add: twoArgHandler_def twoArgBubble_def)
  from handler_called_iff_arguments_fit [OF p f(3), of unitReflect "[StageEv 0]"] a3
  have g3: "Next unitReflect [passingStage] (twoArgBubble\<lparr>Arguments := []\<rparr>) 1 [StageEv 0]
       = (Some ErrInvalidArgumentLength, twoArgBubble\<lparr>Arguments := []\<rparr>, 1, [StageEv 0])"
    by (simp add: twoArgHandler_def twoArgBubble_def)
  from a1 a2 a3 g1 g2 g3 show ?thesis by blast
qed



section \<open>The request object mapper\<close>

subsection \<open>The slot it fills\<close>

lemma ptrStruct_iff:
  "(\<not> (KindOf t \<noteq> Ptr \<or> map_option KindOf (Elem t) \<noteq> Some Struct))
     = (\<exists>e. t = PtrT e \<and> KindOf e = Struct)"
  by (cases t) auto

lemma findArgument_least:
  "idx \<le> i \<Longrightarrow> i - idx < length args \<Longrightarrow> i < length types \<Longrightarrow> args ! (i - idx) = None \<Longrightarrow>
   (\<exists>e. types ! i = PtrT e \<and> KindOf e = Struct) \<Longrightarrow>
   (\<forall>j. idx \<le> j \<and> j < i \<longrightarrow> \<not> (args ! (j - idx) = None \<and> (\<exists>e. types ! j = PtrT e \<and> KindOf e = Struct))) \<Longrightarrow>
   findArgument args types idx = Inr (Some (i, types ! i))"
proof (induction args arbitrary: idx)
  case Nil
  then show ?case by simp
next
  case (Cons arg args)
  show ?case
  proof (cases "idx = i")
    case True
    with Cons.prems show ?thesis by (auto simp: ptrStruct_iff)
  next
    case False
    with Cons.prems(1) have lt: "idx < i" by simp
    then have sh: "i - idx = Suc (i - Suc idx)" by simp
    from Cons.prems(6) lt have head: "\<not> (arg = None \<and> (\<exists>e. types ! idx = PtrT e \<and> KindOf e = Struct))"
      by (auto dest: spec [where x = idx])
    have later: "\<forall>j. Suc idx \<le> j \<and> j < i \<longrightarrow>
        \<not> (args ! (j - Suc idx) = None \<and> (\<exists>e. types ! j = PtrT e \<and> KindOf e = Struct))"
    proof (intro allI impI)
      fix j assume j: "Suc idx \<le> j \<and> j < i"
      then have "j - idx = Suc (j - Suc idx)" by arith
      with Cons.prems(6) j show "\<not> (args ! (j - Suc idx) = None \<and> (\<exists>e. types ! j = PtrT e \<and> KindOf e = Struct))"
        by (auto dest!: spec [where x = j])
    qed
    from lt Cons.prems(2,4) sh have "Suc idx \<le> i" "i - Suc idx < length args" "args ! (i - Suc idx) = None"
      by simp_all
    from Cons.IH [OF this(1,2) Cons.prems(3) this(3) Cons.prems(5) later]
    have rest: "findArgument args types (Suc idx) = Inr (Some (i, types ! i))" .
    from lt Cons.prems(3) have "\<not> length types \<le> idx" by simp
    with head rest show ?thesis
      using ptrStruct_iff [of "types ! idx"] by auto
  qed
qed

lemma findArgument_found:
  "findArgument args types idx = Inr (Some (i, t)) \<Longrightarrow>
     idx \<le> i \<and> i - idx < length args \<and> i < length types \<and> args ! (i - idx) = None
     \<and> t = types ! i \<and> (\<exists>e. t = PtrT e \<and> KindOf e = Struct)
     \<and> (\<forall>j. idx \<le> j \<and> j < i \<longrightarrow>
           \<not> (args ! (j - idx) = None \<and> j < length types \<and> (\<exists>e. types ! j = PtrT e \<and> KindOf e = Struct)))"
proof (induction args arbitrary: idx)
  case Nil
  then show ?case by simp
next
  case (Cons arg args)
  show ?case
  proof (cases "arg \<noteq> None \<or> (idx < length types \<and> \<not> (\<exists>e. types ! idx = PtrT e \<and> KindOf e = Struct))")
    case True
    with Cons.prems have rest: "findArgument args types (Suc idx) = Inr (Some (i, t))"
      using ptrStruct_iff [of "types ! idx"] by (auto split: if_splits)
    from Cons.IH [OF rest] have ih: "Suc idx \<le> i" "i - Suc idx < length args" "i < length types"
      "args ! (i - Suc idx) = None" "t = types ! i" "\<exists>e. t = PtrT e \<and> KindOf e = Struct"
      "\<forall>j. Suc idx \<le> j \<and> j < i \<longrightarrow>
           \<not> (args ! (j - Suc idx) = None \<and> j < length types \<and> (\<exists>e. types ! j = PtrT e \<and> KindOf e = Struct))"
      by blast+
    from ih(1) have sh: "i - idx = Suc (i - Suc idx)" by simp
    have "\<forall>j. idx \<le> j \<and> j < i \<longrightarrow>
           \<not> ((arg # args) ! (j - idx) = None \<and> j < length types \<and> (\<exists>e. types ! j = PtrT e \<and> KindOf e = Struct))"
    proof (intro allI impI)
      fix j assume j: "idx \<le> j \<and> j < i"
      show "\<not> ((arg # args) ! (j - idx) = None \<and> j < length types \<and> (\<exists>e. types ! j = PtrT e \<and> KindOf e = Struct))"
      proof (cases "j = idx")
        case True
        with \<open>arg \<noteq> None \<or> (idx < length types \<and> \<not> (\<exists>e. types ! idx = PtrT e \<and> KindOf e = Struct))\<close>
        show ?thesis by auto
      next
        case False
        with j have "Suc idx \<le> j \<and> j < i" "j - idx = Suc (j - Suc idx)" by arith+
        with ih(7) show ?thesis by auto
      qed
    qed
    with ih sh show ?thesis by simp
  next
    case False
    with Cons.prems show ?thesis
      using ptrStruct_iff [of "types ! idx"] by (auto split: if_splits)
  qed
qed

lemma findArgument_none:
  "idx + length args \<le> length types \<Longrightarrow>
   (\<forall>j. idx \<le> j \<and> j < idx + length args \<longrightarrow>
        \<not> (args ! (j - idx) = None \<and> (\<exists>e. types ! j = PtrT e \<and> KindOf e = Struct))) \<Longrightarrow>
   findArgument args types idx = Inr None"
proof (induction args arbitrary: idx)
  case Nil
  then show ?case by simp
next
  case (Cons arg args)
  from Cons.prems(2) have head: "\<not> (arg = None \<and> (\<exists>e. types ! idx = PtrT e \<and> KindOf e = Struct))"
    by (auto dest: spec [where x = idx])
  have later: "\<forall>j. Suc idx \<le> j \<and> j < Suc idx + length args \<longrightarrow>
        \<not> (args ! (j - Suc idx) = None \<and> (\<exists>e. types ! j = PtrT e \<and> KindOf e = Struct))"
  proof (intro allI impI)
    fix j assume j: "Suc idx \<le> j \<and> j < Suc idx + length args"
    then have "j - idx = Suc (j - Suc idx)" by arith
    with Cons.prems(2) j show "\<not> (args ! (j - Suc idx) = None \<and> (\<exists>e. types ! j = PtrT e \<and> KindOf e = Struct))"
      by (auto dest!: spec [where x = j])
  qed
  from Cons.prems(1) have "Suc idx + length args \<le> length types" by simp
  from Cons.IH [OF this later] have "findArgument args types (Suc idx) = Inr None" .
  with head Cons.prems(1) show ?case
    using ptrStruct_iff [of "types ! idx"] by auto
qed

lemma findArgument_structSlot:
  "structSlot b i \<Longrightarrow> \<forall>j<i. \<not> structSlot b j \<Longrightarrow>
     findArgument (Arguments b) (ArgumentTypes b) 0 = Inr (Some (i, ArgumentTypes b ! i))"
  by (rule findArgument_least) (auto simp: structSlot_def)

lemma findArgument_structSlot_found:
  assumes "findArgument (Arguments b) (ArgumentTypes b) 0 = Inr (Some (i, t))"
  shows "structSlot b i \<and> (\<forall>j<i. \<not> structSlot b j) \<and> t = ArgumentTypes b ! i"
  using findArgument_found [OF assms] by (auto simp: structSlot_def)

lemma findArgument_no_structSlot:
  "\<forall>j. \<not> structSlot b j \<Longrightarrow> length (Arguments b) \<le> length (ArgumentTypes b) \<Longrightarrow>
     findArgument (Arguments b) (ArgumentTypes b) 0 = Inr None"
  by (rule findArgument_none) (auto simp: structSlot_def)


lemma RequestObjectMapper_cases:
  "(\<exists>err. RequestObjectMapper rf b = Return (Some err) b)
   \<or> RequestObjectMapper rf b = returnNext b
   \<or> (\<exists>i x. structSlot b i \<and> (\<forall>j<i. \<not> structSlot b j)
         \<and> RequestObjectMapper rf b
            = returnNext (b\<lparr>Arguments := (Arguments b)[i := Some (Value (ArgumentTypes b ! i) x)]\<rparr>))"
proof (cases "findArgument (Arguments b) (ArgumentTypes b) 0")
  case (Inl e)
  then show ?thesis by (simp add: RequestObjectMapper_def)
next
  case (Inr found)
  show ?thesis
  proof (cases found)
    case None
    with Inr show ?thesis by (simp add: RequestObjectMapper_def)
  next
    case (Some p)
    obtain i t where p: "p = (i, t)" by (cases p)
    with Inr Some have fa: "findArgument (Arguments b) (ArgumentTypes b) 0 = Inr (Some (i, t))"
      by simp
    from findArgument_structSlot_found [OF fa]
    have slot: "structSlot b i" "\<forall>j<i. \<not> structSlot b j" "t = ArgumentTypes b ! i"
      by blast+
    from slot(1,3) obtain e where e: "t = PtrT e" by (auto simp: structSlot_def)
    show ?thesis
    proof (cases "mapRequest rf b e")
      case (Inl err)
      with fa e show ?thesis by (simp add: RequestObjectMapper_def)
    next
      case (Inr x)
      with fa e slot(3) have "RequestObjectMapper rf b
            = returnNext (b\<lparr>Arguments := (Arguments b)[i := Some (Value (ArgumentTypes b ! i) x)]\<rparr>)"
        by (simp add: RequestObjectMapper_def)
      with slot(1,2) show ?thesis by blast
    qed
  qed
qed

text \<open>
  C10.  Whatever the request, \<open>RequestObjectMapper\<close> either returns an error and leaves the
  bubble as it is, or continues the chain with the bubble unchanged, or continues the
  chain with the bubble changed in one slot only: the first slot that is unresolved and
  declared as a pointer to a struct.  When there is such a slot, that is the slot written
  (unless the mapping fails); when there is none, and the bubble has as many declared
  types as slots (as \<open>Bubble.init\<close> makes it), the mapper changes nothing and just calls
  \<open>Next\<close>.  Every other slot keeps its value.
\<close>

theorem RequestObjectMapper_writes_one_slot:
  "((\<exists>err. RequestObjectMapper rf b = Return (Some err) b)
      \<or> RequestObjectMapper rf b = returnNext b
      \<or> (\<exists>i x. structSlot b i \<and> (\<forall>j<i. \<not> structSlot b j)
            \<and> RequestObjectMapper rf b
               = returnNext (b\<lparr>Arguments := (Arguments b)[i := Some (Value (ArgumentTypes b ! i) x)]\<rparr>)))
   \<and> (structSlot b i \<and> (\<forall>j<i. \<not> structSlot b j) \<longrightarrow>
        (\<exists>err. RequestObjectMapper rf b = Return (Some err) b)
        \<or> (\<exists>x. RequestObjectMapper rf b
               = returnNext (b\<lparr>Arguments := (Arguments b)[i := Some (Value (ArgumentTypes b ! i) x)]\<rparr>)))
   \<and> ((\<forall>j. \<not> structSlot b j) \<and> length (ArgumentTypes b) = length (Arguments b) \<longrightarrow>
        RequestObjectMapper rf b = returnNext b)
   \<and> (k \<noteq> i \<longrightarrow> (Arguments b)[i := v] ! k = Arguments b ! k)"
proof (intro conjI impI)
  show "(\<exists>err. RequestObjectMapper rf b = Return (Some err) b)
      \<or> RequestObjectMapper rf b = returnNext b
      \<or> (\<exists>i x. structSlot b i \<and> (\<forall>j<i. \<not> structSlot b j)
            \<and> RequestObjectMapper rf b
               = returnNext (b\<lparr>Arguments := (Arguments b)[i := Some (Value (ArgumentTypes b ! i) x)]\<rparr>))"
    using RequestObjectMapper_cases [of rf b] by blast
next
  assume a: "structSlot b i \<and> (\<forall>j<i. \<not> structSlot b j)"
  then have fa: "findArgument (Arguments b) (ArgumentTypes b) 0 = Inr (Some (i, ArgumentTypes b ! i))"
    by (simp add: findArgument_structSlot)
  from a obtain e where e: "ArgumentTypes b ! i = PtrT e" by (auto simp: structSlot_def)
  show "(\<exists>err. RequestObjectMapper rf b = Return (Some err) b)
        \<or> (\<exists>x. RequestObjectMapper rf b
               = returnNext (b\<lparr>Arguments := (Arguments b)[i := Some (Value (ArgumentTypes b ! i) x)]\<rparr>))"
    using fa e by (cases "mapRequest rf b e") (auto simp: RequestObjectMapper_def)
next
  assume "(\<forall>j. \<not> structSlot b j) \<and> length (ArgumentTypes b) = length (Arguments b)"
  then have "findArgument (Arguments b) (ArgumentTypes b) 0 = Inr None"
    by (simp add: findArgument_no_structSlot)
  then show "RequestObjectMapper rf b = returnNext b"
    by (simp add: RequestObjectMapper_def)
next
  assume "k \<noteq> i"
  then show "(Arguments b)[i := v] ! k = Arguments b ! k" by simp
qed



theorem RequestObjectMapper_writes_one_slot_witness:
  "structSlot threeSlotBubble 1 \<and> \<not> structSlot threeSlotBubble 0
   \<and> RequestObjectMapper unitReflect threeSlotBubble
      = returnNext (threeSlotBubble\<lparr>Arguments :=
          [Some (Value (ScalarT ''int'') ()), Some (Value (PtrT itemRequestT) ()), None]\<rparr>)
   \<and> (Arguments threeSlotBubble)[1 := Some (Value (PtrT itemRequestT) ())] ! 2
      = Arguments threeSlotBubble ! 2
   \<and> length (ArgumentTypes twoArgBubble) = length (Arguments twoArgBubble)
   \<and> RequestObjectMapper unitReflect twoArgBubble = returnNext twoArgBubble"
proof -
  have s1: "structSlot threeSlotBubble 1"
    by (simp add: structSlot_def threeSlotBubble_def itemRequestT_def)
  have s0: "\<not> structSlot threeSlotBubble 0"
    by (simp add: structSlot_def threeSlotBubble_def)
  then have least: "\<forall>j<1. \<not> structSlot threeSlotBubble j" by simp
  have ok: "\<not> (\<exists>err. RequestObjectMapper unitReflect threeSlotBubble = Return (Some err) threeSlotBubble)"
    by (simp add: RequestObjectMapper_def threeSlotBubble_def itemRequestT_def mapRequest_def
        pathStep_def readBody_def bodyStep_def request_def unitReflect_def returnNext_def)
  note t = RequestObjectMapper_writes_one_slot [of unitReflect threeSlotBubble 1 2
      "Some (Value (PtrT itemRequestT) ())"]
  from t s1 least ok obtain x where
    "RequestObjectMapper unitReflect threeSlotBubble
       = returnNext (threeSlotBubble\<lparr>Arguments := (Arguments threeSlotBubble)
           [1 := Some (Value (ArgumentTypes threeSlotBubble ! 1) x)]\<rparr>)"
    by blast
  then have g1: "RequestObjectMapper unitReflect threeSlotBubble
      = returnNext (threeSlotBubble\<lparr>Arguments :=
          [Some (Value (ScalarT ''int'') ()), Some (Value (PtrT itemRequestT) ()), None]\<rparr>)"
    by (simp add: threeSlotBubble_def)
  from t have g2: "(Arguments threeSlotBubble)[1 := Some (Value (PtrT itemRequestT) ())] ! 2
      = Arguments threeSlotBubble ! 2"
    by simp
  have n: "\<forall>j. \<not> structSlot twoArgBubble j"
    by (auto simp: structSlot_def twoArgBubble_def nth_Cons split: nat.splits)
  have l: "length (ArgumentTypes twoArgBubble) = length (Arguments twoArgBubble)"
    by (simp add: twoArgBubble_def)
  from RequestObjectMapper_writes_one_slot [of unitReflect twoArgBubble 0 0 None] n l
  have g3: "RequestObjectMapper unitReflect twoArgBubble = returnNext twoArgBubble"
    by blast
  from s1 s0 g1 g2 l g3 show ?thesis by blast
qed

subsection \<open>The body\<close>

lemma bodyStep_skips:
  "hd (Split CHR '';'' (HeaderContentType r)) = ''application/json'' \<Longrightarrow>
     length body = 0 \<or> length body = 2 \<Longrightarrow> bodyStep rf r body x = Inr x"
  by (auto simp: bodyStep_def Let_def)

lemma valueStringMapper_Unmarshal:
  "valueStringMapper (rf\<lparr>Unmarshal := un\<rparr>) path i sfs x key v = valueStringMapper rf path i sfs x key v"
  by (induction rf path i sfs x key v rule: valueStringMapper.induct)
     (auto split: sum.splits prod.splits option.splits bool.splits)

lemma valueStringSliceMapper_Unmarshal:
  "valueStringSliceMapper (rf\<lparr>Unmarshal := un\<rparr>) path target i sfs x key vs
     = valueStringSliceMapper rf path target i sfs x key vs"
  by (induction rf path target i sfs x key vs rule: valueStringSliceMapper.induct)
     (auto simp: valueStringMapper_Unmarshal split: sum.splits prod.splits option.splits bool.splits list.splits)

lemma pathParameters_Unmarshal:
  "pathParameters (rf\<lparr>Unmarshal := un\<rparr>) flds params x = pathParameters rf flds params x"
  by (induction rf flds params x rule: pathParameters.induct)
     (auto simp: valueStringMapper_Unmarshal split: prod.splits)

lemma queryStep_Unmarshal:
  "queryStep (rf\<lparr>Unmarshal := un\<rparr>) flds query x = queryStep rf flds query x"
  by (induction rf flds query x rule: queryStep.induct)
     (auto simp: valueStringSliceMapper_Unmarshal split: prod.splits option.splits)

text \<open>
  C8.  For a request whose \<open>Content-Type\<close> is \<open>application/json\<close> (up to the first \<open>;\<close>) and
  whose body has been read as zero or two bytes, the body block leaves the request object
  as it is and raises no error; the decoder is not consulted (the mapper's outcome is the
  same whatever \<open>Unmarshal\<close> is); and where the path and query mapping succeed, the object
  they built is what the mapper stores before it calls \<open>Next\<close>.
\<close>

theorem empty_or_two_byte_body_merges_nothing:
  assumes json: "hd (Split CHR '';'' (HeaderContentType (R b))) = ''application/json''"
    and body: "readBody (R b) = Inr body"
    and len: "length body = 0 \<or> length body = 2"
  shows "bodyStep rf (R b) body x = Inr x
     \<and> RequestObjectMapper (rf\<lparr>Unmarshal := un\<rparr>) b = RequestObjectMapper rf b
     \<and> (structSlot b i \<and> (\<forall>j<i. \<not> structSlot b j) \<and> ArgumentTypes b ! i = PtrT elemT
          \<and> pathStep rf (FieldsOf elemT) (Context b) (New rf elemT) = Inr x1
          \<and> queryStep rf (FieldsOf elemT) (URLQuery (R b)) x1 = Inr x2
        \<longrightarrow> RequestObjectMapper rf b
              = returnNext (b\<lparr>Arguments := (Arguments b)[i := Some (Value (PtrT elemT) x2)]\<rparr>))"
proof (intro conjI impI)
  show skip: "bodyStep rf (R b) body x = Inr x"
    using json len by (rule bodyStep_skips)
  have bs: "\<And>rf' y. bodyStep rf' (R b) body y = Inr y"
    using json len by (rule bodyStep_skips)
  have ps: "\<And>flds c y. pathStep (rf\<lparr>Unmarshal := un\<rparr>) flds c y = pathStep rf flds c y"
    by (simp add: pathStep_def pathParameters_Unmarshal cong: PathParameterValue.case_cong)
  have "\<And>t. mapRequest (rf\<lparr>Unmarshal := un\<rparr>) b t = mapRequest rf b t"
    by (simp add: mapRequest_def ps queryStep_Unmarshal body bs cong: sum.case_cong)
  then show "RequestObjectMapper (rf\<lparr>Unmarshal := un\<rparr>) b = RequestObjectMapper rf b"
    by (simp add: RequestObjectMapper_def split: sum.splits option.splits prod.splits)
next
  assume a: "structSlot b i \<and> (\<forall>j<i. \<not> structSlot b j) \<and> ArgumentTypes b ! i = PtrT elemT
          \<and> pathStep rf (FieldsOf elemT) (Context b) (New rf elemT) = Inr x1
          \<and> queryStep rf (FieldsOf elemT) (URLQuery (R b)) x1 = Inr x2"
  then have fa: "findArgument (Arguments b) (ArgumentTypes b) 0 = Inr (Some (i, PtrT elemT))"
    using findArgument_structSlot [of b i] by simp
  have "bodyStep rf (R b) body x2 = Inr x2"
    using json len by (rule bodyStep_skips)
  with a body have "mapRequest rf b elemT = Inr x2"
    by (simp add: mapRequest_def)
  with fa show "RequestObjectMapper rf b
              = returnNext (b\<lparr>Arguments := (Arguments b)[i := Some (Value (PtrT elemT) x2)]\<rparr>)"
    by (simp add: RequestObjectMapper_def)
qed



theorem empty_or_two_byte_body_merges_nothing_witness:
  "hd (Split CHR '';'' (HeaderContentType (R jsonBubble))) = ''application/json''
   \<and> readBody (R jsonBubble) = Inr ''{}''
   \<and> bodyStep rejectingReflect (R jsonBubble) ''{}'' () = Inr ()
   \<and> RequestObjectMapper rejectingReflect jsonBubble = RequestObjectMapper unitReflect jsonBubble
   \<and> RequestObjectMapper rejectingReflect jsonBubble
       = returnNext (jsonBubble\<lparr>Arguments := [Some (Value (PtrT itemRequestT) ())]\<rparr>)"
proof -
  have ct: "Split CHR '';'' ''application/json; charset=UTF-8''
      = [''application/json'', '' charset=UTF-8'']"
    by code_simp
  then have h1: "hd (Split CHR '';'' (HeaderContentType (R jsonBubble))) = ''application/json''"
    by (simp add: jsonBubble_def request_def)
  have h2: "readBody (R jsonBubble) = Inr ''{}''"
    by (simp add: jsonBubble_def readBody_def)
  have h3: "length ''{}'' = 0 \<or> length ''{}'' = 2" by simp
  have h4: "structSlot jsonBubble 0 \<and> (\<forall>j<0. \<not> structSlot jsonBubble j)
      \<and> ArgumentTypes jsonBubble ! 0 = PtrT itemRequestT
      \<and> pathStep rejectingReflect (FieldsOf itemRequestT) (Context jsonBubble)
           (New rejectingReflect itemRequestT) = Inr ()
      \<and> queryStep rejectingReflect (FieldsOf itemRequestT) (URLQuery (R jsonBubble)) () = Inr ()"
    by (simp add: structSlot_def jsonBubble_def itemBubble_def itemRequestT_def pathStep_def
        request_def)
  note t = empty_or_two_byte_body_merges_nothing [where rf = rejectingReflect and x = "()"
      and un = "Unmarshal unitReflect" and i = 0 and elemT = itemRequestT and ?x1.0 = "()"
      and ?x2.0 = "()", OF h1 h2 h3]
  have "rejectingReflect\<lparr>Unmarshal := Unmarshal unitReflect\<rparr> = unitReflect"
    by (simp add: rejectingReflect_def unitReflect_def)
  with t have g2: "RequestObjectMapper rejectingReflect jsonBubble
      = RequestObjectMapper unitReflect jsonBubble"
    by simp
  from t h4 have "RequestObjectMapper rejectingReflect jsonBubble
      = returnNext (jsonBubble\<lparr>Arguments := (Arguments jsonBubble)[0 := Some (Value (PtrT itemRequestT) ())]\<rparr>)"
    by blast
  then have g3: "RequestObjectMapper rejectingReflect jsonBubble
       = returnNext (jsonBubble\<lparr>Arguments := [Some (Value (PtrT itemRequestT) ())]\<rparr>)"
    by (simp add: jsonBubble_def itemBubble_def)
  from t h1 h2 g2 g3 show ?thesis by blast
qed

subsection \<open>Path parameters without a field\<close>

lemma valueStringMapper_no_field:
  "\<not> hasField sfs key \<Longrightarrow> valueStringMapper rf path i sfs x key v = (False, None, x)"
  by (induction rf path i sfs x key v rule: valueStringMapper.induct) auto

lemma pathParameters_no_field:
  "key \<in> fst ` set params \<Longrightarrow> \<not> hasField flds key \<Longrightarrow>
     pathParameters rf flds params x = Inl ErrPathParameterFieldMissing"
proof (induction params arbitrary: x)
  case Nil
  then show ?case by simp
next
  case (Cons p params)
  obtain k v where p: "p = (k, v)" by (cases p)
  obtain found err x' where r: "valueStringMapper rf [] 0 flds x k v = (found, err, x')"
    by (cases "valueStringMapper rf [] 0 flds x k v") auto
  show ?case
  proof (cases "k = key")
    case True
    with Cons.prems(2) p show ?thesis by (simp add: valueStringMapper_no_field)
  next
    case False
    with Cons.prems(1) p have mem: "key \<in> fst ` set params" by auto
    from Cons.IH [OF mem Cons.prems(2)]
    have "pathParameters rf flds params x' = Inl ErrPathParameterFieldMissing" .
    with p r show ?thesis by simp
  qed
qed

lemma mapAssign_keys: "fst ` set (mapAssign ps k v) = insert k (fst ` set ps)"
  by (induction ps k v rule: mapAssign.induct) auto

lemma matchLoop_keys:
  "matchLoop ss vs rs params = Some m \<Longrightarrow>
     k \<in> fst ` set params \<or> (\<exists>s. (s, True) \<in> set (zip ss vs) \<and> reSubmatch s = k) \<Longrightarrow>
     k \<in> fst ` set m"
proof (induction ss vs rs params rule: matchLoop.induct)
  case (1 s ss v vs reqPart rs params)
  show ?case
  proof (cases v)
    case True
    with "1.prems"(1) have ne: "reqPart \<noteq> []"
      and rest: "matchLoop ss vs rs (mapAssign params (reSubmatch s) (unescapeOrRaw reqPart)) = Some m"
      by (auto split: if_splits)
    from "1.prems"(2) True
    have "k \<in> fst ` set (mapAssign params (reSubmatch s) (unescapeOrRaw reqPart))
        \<or> (\<exists>s'. (s', True) \<in> set (zip ss vs) \<and> reSubmatch s' = k)"
      by (auto simp: mapAssign_keys)
    with "1.IH"(1) [OF True ne rest] show ?thesis by blast
  next
    case False
    with "1.prems"(1) have eq: "\<not> s \<noteq> reqPart" and rest: "matchLoop ss vs rs params = Some m"
      by (auto split: if_splits)
    from "1.prems"(2) False
    have "k \<in> fst ` set params \<or> (\<exists>s'. (s', True) \<in> set (zip ss vs) \<and> reSubmatch s' = k)"
      by auto
    with "1.IH"(2) [OF False eq rest] show ?thesis by blast
  qed
qed auto

lemma Match_keys:
  assumes "Match (ParsePathTemplate p) reqPath = (True, Some params)"
    and "key \<in> set (PathParameters (ParsePathTemplate p))"
  shows "key \<in> fst ` set params"
proof -
  let ?pt = "ParsePathTemplate p"
  let ?toks = "Split CHR ''/'' p"
  from assms(1) obtain rs where loop: "matchLoop (splittedPathTemplate ?pt) (isVariables ?pt) rs [] = Some params"
    by (auto simp: Match_def Let_def matchResult_def split: if_splits option.splits)
  from assms(2) obtain tok where tok: "tok \<in> set ?toks" "reMatchString tok" "key = reSubmatch tok"
    by (auto simp: ParsePathTemplate_def Let_def)
  from tok(1) obtain n where n: "n < length ?toks" "?toks ! n = tok"
    by (auto simp: in_set_conv_nth)
  with tok(2) have "(tok, True) \<in> set (zip ?toks (map reMatchString ?toks))"
    by (auto simp: in_set_zip intro!: exI [where x = n])
  then have "(tok, True) \<in> set (zip (splittedPathTemplate ?pt) (isVariables ?pt))"
    by (simp add: ParsePathTemplate_def Let_def)
  with tok(3) have "key \<in> fst ` set [] \<or> (\<exists>s. (s, True) \<in> set (zip (splittedPathTemplate ?pt) (isVariables ?pt)) \<and> reSubmatch s = key)"
    by blast
  with loop show ?thesis by (rule matchLoop_keys)
qed

lemma itemBubble_mapper:
  "RequestObjectMapper unitReflect itemBubble = Return (Some ErrPathParameterFieldMissing) itemBubble"
proof -
  have ig: "\<not> Ignored ''name''" by code_simp
  have key: "structFieldToKey ''Name'' ''name'' \<noteq> ''id''" by code_simp
  have "valueStringMapper unitReflect [] 0 [Field ''Name'' ''name'' Scalar] () ''id'' ''5''
      = (False, None, ())"
    using ig key by simp
  then have "mapRequest unitReflect itemBubble itemRequestT = Inl ErrPathParameterFieldMissing"
    by (simp add: mapRequest_def pathStep_def itemBubble_def itemRequestT_def unitReflect_def)
  moreover have "findArgument (Arguments itemBubble) (ArgumentTypes itemBubble) 0
      = Inr (Some (0, PtrT itemRequestT))"
    by (simp add: itemBubble_def itemRequestT_def)
  ultimately show ?thesis by (simp add: RequestObjectMapper_def)
qed

lemma itemMux_Handle:
  "Handle emptyMux ''GET'' ''/item/{id}'' (FuncValue itemHandler) = Inr itemMux"
proof -
  have "Split CHR '','' (ToUpper ''GET'') = [''GET'']" by code_simp
  then show ?thesis by (simp add: Handle_def Let_def itemMux_def emptyMux_def route_def)
qed

lemma methodMatchRate_route:
  "methodMatchRate r (route m p hc) = methodMatchRate r (route m p ())"
  by (auto simp: methodMatchRate_def route_def)

lemma pathMatchRate_route:
  "pathMatchRate r (route m p hc) = pathMatchRate r (route m p ())"
  by (simp add: pathMatchRate_def route_def Let_def)

text \<open>
  C9 as stated fails: nothing at registration or startup compares the variables of a path
  template with the fields of the handler's request type.  \<open>Handle\<close> registers the route
  \<open>GET /item/{id}\<close> for a handler whose request struct has no field for \<open>id\<close>, \<open>Prepare\<close>
  succeeds, and the request \<open>GET /item/5\<close> is routed to the handler's chain, where the
  mapper returns \<open>ErrPathParameterFieldMissing\<close>.
\<close>

theorem route_registered_and_served_counterexample:
  "Handle emptyMux ''GET'' ''/item/{id}'' (FuncValue itemHandler) = Inr itemMux
   \<and> Prepare itemMux = None
   \<and> PathParameters (ParsePathTemplate ''/item/{id}'') = [''id'']
   \<and> \<not> hasField (FieldsOf itemRequestT) ''id''
   \<and> ServeHTTP unitReflect itemMux (request ''GET'' ''/item/5'')
       = Finished (Some ErrPathParameterFieldMissing) itemBubble [StageEv 0]"
proof -
  let ?r = "request ''GET'' ''/item/5''"
  let ?rd = "route ''GET'' ''/item/{id}'' (FuncValue itemHandler)"
  have pre: "Prepare itemMux = None"
    by (simp add: Prepare_def itemMux_def emptyMux_def)
  have pp: "PathParameters (ParsePathTemplate ''/item/{id}'') = [''id'']" by code_simp
  have nf: "\<not> hasField (FieldsOf itemRequestT) ''id''" by code_simp
  have "methodMatchRate ?r (route ''GET'' ''/item/{id}'' ()) = 3" by code_simp
  then have mr: "methodMatchRate ?r ?rd = 3"
    using methodMatchRate_route [of ?r "''GET''" "''/item/{id}''" "FuncValue itemHandler"]
    by simp
  have "pathMatchRate ?r (route ''GET'' ''/item/{id}'' ()) = 4" by code_simp
  then have pr: "pathMatchRate ?r ?rd = 4"
    using pathMatchRate_route [of ?r "''GET''" "''/item/{id}''" "FuncValue itemHandler"]
    by simp
  from mr pr have pick: "pickupBestRouteDefinition (handlers itemMux) ?r = Some ?rd"
    by (simp add: pickupBestRouteDefinition_def pickupStep_cases itemMux_def emptyMux_def
        noMethodMatch_def noPathMatch_def)
  have "Match (ParsePathTemplate ''/item/{id}'') ''/item/5'' = (True, Some [(''id'', ''5'')])"
    by code_simp
  then have m: "Match (RoutePathTemplate ?rd) (URLEscapedPath ?r) = (True, Some [(''id'', ''5'')])"
    by (simp add: route_def request_def)
  have nb: "newBubble itemMux (Params [(''id'', ''5'')]) ?r ?rd = Inr itemBubble"
    by (simp add: newBubble_def route_def itemMux_def emptyMux_def itemBubble_def itemHandler_def)
  have run: "Next unitReflect (middlewares itemMux) itemBubble 0 []
      = (Some ErrPathParameterFieldMissing, itemBubble, 1, [StageEv 0])"
    by (simp add: Next_def itemMux_def emptyMux_def itemBubble_mapper)
  from pick m nb run have "ServeHTTP unitReflect itemMux ?r
       = Finished (Some ErrPathParameterFieldMissing) itemBubble [StageEv 0]"
    by (simp add: ServeHTTP_def)
  with itemMux_Handle pre pp nf show ?thesis by blast
qed


text \<open>
  C9, amended.  \<open>Handle\<close> adds the routes for every handler that is a function, whatever
  the path template and the request type.  When a request matches the template, every
  variable of the template is a key of the bindings; and when the bindings in the bubble's
  context hold a key for which the request struct of the first unresolved struct-pointer
  slot has no field, \<open>RequestObjectMapper\<close> returns \<open>ErrPathParameterFieldMissing\<close> without
  calling \<open>Next\<close>: the failure surfaces when the request arrives.
\<close>

theorem missing_path_field_fails_at_request_time:
  "Handle m method path (FuncValue hv)
     = Inr (m\<lparr>handlers := handlers m
               @ map (\<lambda>method. route method path (FuncValue hv)) (Split CHR '','' (ToUpper method))\<rparr>)
   \<and> (Match (ParsePathTemplate path) reqPath = (True, Some params)
        \<and> key \<in> set (PathParameters (ParsePathTemplate path))
       \<longrightarrow> key \<in> fst ` set params)
   \<and> (structSlot b i \<and> (\<forall>j<i. \<not> structSlot b j) \<and> ArgumentTypes b ! i = PtrT elemT
        \<and> Context b = Params params \<and> key \<in> fst ` set params
        \<and> \<not> hasField (FieldsOf elemT) key
       \<longrightarrow> RequestObjectMapper rf b = Return (Some ErrPathParameterFieldMissing) b)"
proof (intro conjI impI)
  show "Handle m method path (FuncValue hv)
     = Inr (m\<lparr>handlers := handlers m
               @ map (\<lambda>method. route method path (FuncValue hv)) (Split CHR '','' (ToUpper method))\<rparr>)"
    by (simp add: Handle_def Let_def route_def)
next
  assume "Match (ParsePathTemplate path) reqPath = (True, Some params)
        \<and> key \<in> set (PathParameters (ParsePathTemplate path))"
  then show "key \<in> fst ` set params" by (auto intro: Match_keys)
next
  assume a: "structSlot b i \<and> (\<forall>j<i. \<not> structSlot b j) \<and> ArgumentTypes b ! i = PtrT elemT
        \<and> Context b = Params params \<and> key \<in> fst ` set params
        \<and> \<not> hasField (FieldsOf elemT) key"
  then have fa: "findArgument (Arguments b) (ArgumentTypes b) 0 = Inr (Some (i, PtrT elemT))"
    using findArgument_structSlot [of b i] by simp
  from a have "pathStep rf (FieldsOf elemT) (Context b) (New rf elemT) = Inl ErrPathParameterFieldMissing"
    using pathParameters_no_field [of key params "FieldsOf elemT" rf "New rf elemT"]
    by (simp add: pathStep_def)
  then have "mapRequest rf b elemT = Inl ErrPathParameterFieldMissing"
    by (simp add: mapRequest_def)
  with fa show "RequestObjectMapper rf b = Return (Some ErrPathParameterFieldMissing) b"
    by (simp add: RequestObjectMapper_def)
qed



theorem missing_path_field_fails_at_request_time_witness:
  "Handle emptyMux ''GET'' ''/item/{id}'' (FuncValue itemHandler) = Inr itemMux
   \<and> Match (ParsePathTemplate ''/item/{id}'') ''/item/5'' = (True, Some [(''id'', ''5'')])
   \<and> ''id'' \<in> set (PathParameters (ParsePathTemplate ''/item/{id}''))
   \<and> ''id'' \<in> fst ` set [(''id'', ''5'')]
   \<and> structSlot itemBubble 0
   \<and> \<not> hasField (FieldsOf itemRequestT) ''id''
   \<and> RequestObjectMapper unitReflect itemBubble
       = Return (Some ErrPathParameterFieldMissing) itemBubble"
proof -
  have sp: "Split CHR '','' (ToUpper ''GET'') = [''GET'']" by code_simp
  have m: "Match (ParsePathTemplate ''/item/{id}'') ''/item/5'' = (True, Some [(''id'', ''5'')])"
    by code_simp
  have pp: "''id'' \<in> set (PathParameters (ParsePathTemplate ''/item/{id}''))" by code_simp
  have slot: "structSlot itemBubble 0 \<and> (\<forall>j<0. \<not> structSlot itemBubble j)
      \<and> ArgumentTypes itemBubble ! 0 = PtrT itemRequestT
      \<and> Context itemBubble = Params [(''id'', ''5'')]"
    by (simp add: structSlot_def itemBubble_def itemRequestT_def)
  have nf: "\<not> hasField (FieldsOf itemRequestT) ''id''" by code_simp
  note t = missing_path_field_fails_at_request_time [of emptyMux "''GET''" "''/item/{id}''"
      itemHandler "''/item/5''" "[(''id'', ''5'')]" "''id''" itemBubble 0 itemRequestT unitReflect]
  from t sp have g1: "Handle emptyMux ''GET'' ''/item/{id}'' (FuncValue itemHandler) = Inr itemMux"
    by (simp add: itemMux_def emptyMux_def)
  from t m pp have g2: "''id'' \<in> fst ` set [(''id'', ''5'')]" by blast
  from t slot g2 nf have g3: "RequestObjectMapper unitReflect itemBubble
       = Return (Some ErrPathParameterFieldMissing) itemBubble"
    by blast
  from g1 m pp g2 slot nf g3 show ?thesis by blast
qed


end
